theory Spec2Isabelle
  imports Main "HOL-Library.Char_ord"
begin

section \<open>JavaScript values, thrown errors and request objects\<close>

text \<open>
  The handlers are Firebase callable functions written in JavaScript. A value that can
  arrive in the \<open>username\<close> property of the request is one of the JavaScript types;
  strings are lists of characters (code units of the 8-bit range).
\<close>

datatype js_value = JUndefined | JNull | JBool bool | JNumber int | JString string | JObject

text \<open>
  \<open>data\<close> of a callable request: \<open>NoData\<close> is a falsy \<open>data\<close>
  (\<open>!data\<close> holds), \<open>Data v\<close> is a truthy one whose \<open>username\<close> property reads \<open>v\<close>.
\<close>

datatype js_data = NoData | Data js_value

text \<open>
  A thrown value is either an instance of \<open>functions.https.HttpsError\<close> (code and
  message) or some other error object, of which the code reads only the \<open>code\<close> and
  \<open>message\<close> properties (either may be undefined).
\<close>

datatype js_error =
    HttpsError string string
  | JsError "string option" "string option"

fun instanceof_HttpsError :: "js_error \<Rightarrow> bool" where
  "instanceof_HttpsError (HttpsError c m) = True"
| "instanceof_HttpsError (JsError c m) = False"

fun error_code :: "js_error \<Rightarrow> string option" where
  "error_code (HttpsError c m) = Some c"
| "error_code (JsError c m) = c"

fun error_message :: "js_error \<Rightarrow> string option" where
  "error_message (HttpsError c m) = Some m"
| "error_message (JsError c m) = m"

text \<open>
  The callable context: \<open>app\<close> says whether \<open>context.app\<close> is truthy; \<open>auth\<close> is
  \<open>None\<close> for a missing \<open>context.auth\<close>, \<open>Some None\<close> for one without \<open>uid\<close>.
\<close>

record callable_context =
  app :: bool
  auth :: "string option option"

text \<open>\<open>!context.auth || !context.auth.uid\<close>: the empty string is falsy too.\<close>

definition auth_uid :: "callable_context \<Rightarrow> string option" where
  "auth_uid context =
     (case auth context of
        None \<Rightarrow> None
      | Some None \<Rightarrow> None
      | Some (Some uid) \<Rightarrow> (if uid = [] then None else Some uid))"

text \<open>The object a handler resolves with; a property that is not set is \<open>None\<close>.\<close>

record response =
  resp_success :: bool
  resp_username :: "string option"
  resp_uid :: "string option"

section \<open>String operations\<close>

text \<open>\<open>String.prototype.trim\<close>: white space and line terminators of the 8-bit range.\<close>

definition is_js_whitespace :: "char \<Rightarrow> bool" where
  "is_js_whitespace c =
     (c \<in> {CHR 0x09, CHR 0x0A, CHR 0x0B, CHR 0x0C, CHR 0x0D, CHR 0x20, CHR 0xA0})"

definition trim :: "string \<Rightarrow> string" where
  "trim s = rev (dropWhile is_js_whitespace (rev (dropWhile is_js_whitespace s)))"

text \<open>\<open>String.prototype.includes\<close>: the argument occurs as a contiguous substring.\<close>

fun includes_str :: "string \<Rightarrow> string \<Rightarrow> bool" where
  "includes_str [] sub = (sub = [])"
| "includes_str (c # cs) sub = (take (length sub) (c # cs) = sub \<or> includes_str cs sub)"

text \<open>
  The regular expressions the code uses are anchored sequences of character classes
  with a repetition range: \<open>Class ranges lo hi\<close> is \<open>[ranges]{lo,hi}\<close>. A string
  matches \<open>^items$\<close> when it splits into consecutive blocks, one per item, whose length
  is in the item's range and whose characters are all in the item's class.
\<close>

datatype regex_item = Class "(char \<times> char) list" nat nat

definition in_class :: "(char \<times> char) list \<Rightarrow> char \<Rightarrow> bool" where
  "in_class ranges c = list_ex (\<lambda>(lo, hi). lo \<le> c \<and> c \<le> hi) ranges"

fun regex_match :: "regex_item list \<Rightarrow> string \<Rightarrow> bool" where
  "regex_match [] s = (s = [])"
| "regex_match (Class ranges lo hi # items) s =
     list_ex (\<lambda>n. n \<le> length s \<and> list_all (in_class ranges) (take n s)
                   \<and> regex_match items (drop n s)) [lo ..< Suc hi]"

text \<open>\<open>const usernameRegex = /^[a-z][a-z0-9_]{7,14}$/\<close>\<close>

definition usernameRegex :: "regex_item list" where
  "usernameRegex =
     [Class [(CHR ''a'', CHR ''z'')] 1 1,
      Class [(CHR ''a'', CHR ''z''), (CHR ''0'', CHR ''9''), (CHR ''_'', CHR ''_'')] 7 14]"

section \<open>The external world: Auth, Realtime Database, Firestore\<close>

text \<open>
  A stored document is a list of fields. \<open>ServerTimestamp\<close> is the sentinel
  (\<open>ServerValue.TIMESTAMP\<close>, \<open>FieldValue.serverTimestamp()\<close>) that the server replaces
  by its time when the write commits. A property that is missing reads \<open>Undefined\<close>.
\<close>

datatype fval = Undefined | Str string | Num nat | ServerTimestamp

type_synonym doc = "(string \<times> fval) list"

definition field :: "doc \<Rightarrow> string \<Rightarrow> fval" where
  "field d k = (case map_of d k of None \<Rightarrow> Undefined | Some v \<Rightarrow> v)"

definition resolve :: "nat \<Rightarrow> doc \<Rightarrow> doc" where
  "resolve now d = map (\<lambda>(k, v). (k, if v = ServerTimestamp then Num now else v)) d"

text \<open>
  \<open>RtdbRef ks key\<close> is \<open>rtdb.ref(`ks/${key}`)\<close>; \<open>FsDoc coll id\<close> is
  \<open>db.collection(coll).doc(id)\<close>.
\<close>

datatype path = RtdbRef string string | FsDoc string string

fun keyspace :: "path \<Rightarrow> string" where
  "keyspace (RtdbRef ks key) = ks"
| "keyspace (FsDoc coll ident) = coll"

record user_record =
  email :: string
  emailVerified :: bool

text \<open>
  The handlers share the store with concurrent callers, and every call to an external
  service can be rejected. Each call consumes one step of a schedule: what other
  clients did to the store since the previous call, and the error the call is rejected
  with, if any. An empty schedule is a quiet, healthy environment.
\<close>

datatype mutation = Put path doc | Del path | Tick nat

record env_step =
  others :: "mutation list"
  fault :: "js_error option"

record transaction_result =
  committed :: bool
  snapshot :: "doc option"

text \<open>The history of calls to the external services, each with what it answered.\<close>

datatype event =
    AuthGetUser string "js_error + user_record"
  | RtdbOnce path "js_error + bool"
  | RtdbTransaction path "js_error + transaction_result"
  | RtdbRemove path "js_error + unit"
  | FsGet path "js_error + bool"
  | FsSet path doc "js_error + unit"
  | FsDelete path "js_error + unit"
  | FsRunTransaction "js_error + (path \<times> doc) list"
  | Sleep nat

record world =
  store :: "path \<Rightarrow> doc option"
  accounts :: "string \<Rightarrow> user_record option"
  clock :: nat
  server_value_available :: bool
  field_value_available :: bool
  schedule :: "env_step list"
  trace :: "event list"

fun apply_mutation :: "mutation \<Rightarrow> world \<Rightarrow> world" where
  "apply_mutation (Put p d) w = w\<lparr>store := (store w)(p \<mapsto> d)\<rparr>"
| "apply_mutation (Del p) w = w\<lparr>store := (store w)(p := None)\<rparr>"
| "apply_mutation (Tick n) w = w\<lparr>clock := clock w + n\<rparr>"

definition next_step :: "world \<Rightarrow> js_error option \<times> world" where
  "next_step w =
     (case schedule w of
        [] \<Rightarrow> (None, w)
      | s # ss \<Rightarrow> (fault s, (fold apply_mutation (others s) w)\<lparr>schedule := ss\<rparr>))"

definition emit :: "event \<Rightarrow> world \<Rightarrow> world" where
  "emit e w = w\<lparr>trace := trace w @ [e]\<rparr>"

text \<open>\<open>admin.auth().getUser(uid)\<close>: rejects when the account does not exist.\<close>

definition getUser :: "string \<Rightarrow> world \<Rightarrow> (js_error + user_record) \<times> world" where
  "getUser u w =
     (case next_step w of (f, w1) \<Rightarrow>
        (let r = (case f of
                    Some e \<Rightarrow> Inl e
                  | None \<Rightarrow> (case accounts w1 u of
                               None \<Rightarrow> Inl (JsError (Some ''auth/user-not-found'') None)
                             | Some userRecord \<Rightarrow> Inr userRecord))
         in (r, emit (AuthGetUser u r) w1)))"

text \<open>\<open>ref.once('value')\<close>, of which only \<open>snapshot.exists()\<close> is used.\<close>

definition rtdb_once :: "path \<Rightarrow> world \<Rightarrow> (js_error + bool) \<times> world" where
  "rtdb_once p w =
     (case next_step w of (f, w1) \<Rightarrow>
        (let r = (case f of Some e \<Rightarrow> Inl e | None \<Rightarrow> Inr (store w1 p \<noteq> None))
         in (r, emit (RtdbOnce p r) w1)))"

text \<open>
  \<open>ref.transaction(update)\<close>: the update function sees the current value (\<open>None\<close> for
  \<open>null\<close>) and can read the local time (\<open>Date.now()\<close>, its first argument here);
  returning \<open>None\<close> (\<open>undefined\<close>) aborts, and the call resolves with
  \<open>committed: false\<close>; otherwise the value is written, server values resolved.
\<close>

definition rtdb_transaction ::
  "path \<Rightarrow> (nat \<Rightarrow> doc option \<Rightarrow> doc option) \<Rightarrow> world \<Rightarrow> (js_error + transaction_result) \<times> world" where
  "rtdb_transaction p update w =
     (case next_step w of (f, w1) \<Rightarrow>
        (case f of
           Some e \<Rightarrow> (Inl e, emit (RtdbTransaction p (Inl e)) w1)
         | None \<Rightarrow>
             (case update (clock w1) (store w1 p) of
                None \<Rightarrow>
                  (let r = \<lparr>committed = False, snapshot = store w1 p\<rparr>
                   in (Inr r, emit (RtdbTransaction p (Inr r)) w1))
              | Some d \<Rightarrow>
                  (let d' = resolve (clock w1) d;
                       r = \<lparr>committed = True, snapshot = Some d'\<rparr>
                   in (Inr r, emit (RtdbTransaction p (Inr r))
                                (w1\<lparr>store := (store w1)(p \<mapsto> d')\<rparr>))))))"

definition rtdb_remove :: "path \<Rightarrow> world \<Rightarrow> (js_error + unit) \<times> world" where
  "rtdb_remove p w =
     (case next_step w of (f, w1) \<Rightarrow>
        (case f of
           Some e \<Rightarrow> (Inl e, emit (RtdbRemove p (Inl e)) w1)
         | None \<Rightarrow> (Inr (), emit (RtdbRemove p (Inr ())) (w1\<lparr>store := (store w1)(p := None)\<rparr>))))"

text \<open>\<open>docRef.get()\<close>, of which only \<open>doc.exists\<close> is used.\<close>

definition fs_get :: "path \<Rightarrow> world \<Rightarrow> (js_error + bool) \<times> world" where
  "fs_get p w =
     (case next_step w of (f, w1) \<Rightarrow>
        (let r = (case f of Some e \<Rightarrow> Inl e | None \<Rightarrow> Inr (store w1 p \<noteq> None))
         in (r, emit (FsGet p r) w1)))"

text \<open>\<open>docRef.set(d)\<close>: an unconditional write.\<close>

definition fs_set :: "path \<Rightarrow> doc \<Rightarrow> world \<Rightarrow> (js_error + unit) \<times> world" where
  "fs_set p d w =
     (case next_step w of (f, w1) \<Rightarrow>
        (case f of
           Some e \<Rightarrow> (Inl e, emit (FsSet p d (Inl e)) w1)
         | None \<Rightarrow> (Inr (), emit (FsSet p d (Inr ()))
                              (w1\<lparr>store := (store w1)(p \<mapsto> resolve (clock w1) d)\<rparr>))))"

definition fs_delete :: "path \<Rightarrow> world \<Rightarrow> (js_error + unit) \<times> world" where
  "fs_delete p w =
     (case next_step w of (f, w1) \<Rightarrow>
        (case f of
           Some e \<Rightarrow> (Inl e, emit (FsDelete p (Inl e)) w1)
         | None \<Rightarrow> (Inr (), emit (FsDelete p (Inr ())) (w1\<lparr>store := (store w1)(p := None)\<rparr>))))"

text \<open>
  \<open>db.runTransaction(body)\<close>: the body reads with \<open>transaction.get\<close> (here: does the
  document exist) and either throws or ends with the list of its \<open>transaction.set\<close>
  calls, which are then applied together, with one server time.
\<close>

definition apply_writes :: "nat \<Rightarrow> (path \<times> doc) list \<Rightarrow> (path \<Rightarrow> doc option) \<Rightarrow> (path \<Rightarrow> doc option)" where
  "apply_writes now ws st = fold (\<lambda>(p, d) st'. st'(p \<mapsto> resolve now d)) ws st"

definition fs_runTransaction ::
  "((path \<Rightarrow> bool) \<Rightarrow> js_error + (path \<times> doc) list) \<Rightarrow> world \<Rightarrow> (js_error + unit) \<times> world" where
  "fs_runTransaction body w =
     (case next_step w of (f, w1) \<Rightarrow>
        (case f of
           Some e \<Rightarrow> (Inl e, emit (FsRunTransaction (Inl e)) w1)
         | None \<Rightarrow>
             (case body (\<lambda>p. store w1 p \<noteq> None) of
                Inl e \<Rightarrow> (Inl e, emit (FsRunTransaction (Inl e)) w1)
              | Inr ws \<Rightarrow>
                  (Inr (), emit (FsRunTransaction (Inr (map (\<lambda>(p, d). (p, resolve (clock w1) d)) ws)))
                             (w1\<lparr>store := apply_writes (clock w1) ws (store w1)\<rparr>)))))"

text \<open>\<open>await sleep(ms)\<close> and \<open>await new Promise(resolve => setTimeout(resolve, ms))\<close>\<close>

definition sleep :: "nat \<Rightarrow> world \<Rightarrow> (js_error + unit) \<times> world" where
  "sleep ms w = (Inr (), emit (Sleep ms) (w\<lparr>clock := clock w + ms\<rparr>))"

text \<open>\<open>getServerTimestamp()\<close> of utils/firestore.js and of the Firestore createNewUser.\<close>

definition getServerTimestamp :: "world \<Rightarrow> js_error + fval" where
  "getServerTimestamp w =
     (if \<not> field_value_available w
      then Inl (JsError None (Some ''Firestore FieldValue is not available. Ensure admin is initialized.''))
      else Inr ServerTimestamp)"

section \<open>The authorization gate (utils/auth.js)\<close>

definition validateAuthAndEmail ::
  "callable_context \<Rightarrow> string \<Rightarrow> world \<Rightarrow> (js_error + unit) \<times> world" where
  "validateAuthAndEmail context functionName w =
     (if \<not> app context
      then (Inl (HttpsError ''failed-precondition'' ''App Check verification failed''), w)
      else (case auth_uid context of
              None \<Rightarrow> (Inl (HttpsError ''unauthenticated'' ''Authentication required''), w)
            | Some uid \<Rightarrow>
                (case getUser uid w of
                   (Inl error, w1) \<Rightarrow>
                     (Inl (HttpsError ''internal'' ''Failed to retrieve user information''), w1)
                 | (Inr userRecord, w1) \<Rightarrow>
                     (if \<not> emailVerified userRecord
                      then (Inl (HttpsError ''failed-precondition''
                                   ''use a verified email address to continue''), w1)
                      else (Inr (), w1)))))"

text \<open>
  Every handler ends with the same guard: an \<open>HttpsError\<close> is thrown again as it is,
  anything else becomes a generic internal error.
\<close>

definition top_level_catch :: "(js_error + 'a) \<times> world \<Rightarrow> (js_error + 'a) \<times> world" where
  "top_level_catch rw =
     (case rw of
        (Inr v, w) \<Rightarrow> (Inr v, w)
      | (Inl error, w) \<Rightarrow>
          (if instanceof_HttpsError error then (Inl error, w)
           else (Inl (HttpsError ''internal'' ''An unexpected error occurred''), w)))"

text \<open>\<open>!data || typeof data.username !== 'string'\<close>\<close>

fun username_string :: "js_data \<Rightarrow> string option" where
  "username_string (Data (JString s)) = Some s"
| "username_string d = None"

definition maxRetries :: nat where
  "maxRetries = 3"

definition retryDelay :: nat where
  "retryDelay = 500"

section \<open>createNewUser on the Realtime Database (two single-key transactions)\<close>

text \<open>The body of the \<open>try\<close> of step 6, for one value of \<open>attempt\<close>.\<close>

definition createUsername_attempt :: "string \<Rightarrow> nat \<Rightarrow> world \<Rightarrow> (js_error + fval) \<times> world" where
  "createUsername_attempt username attempt w =
     (case (if attempt > 1
            then (case rtdb_once (RtdbRef ''usernames'' username) w of
                    (Inl error, w1) \<Rightarrow> (Inl error, w1)
                  | (Inr ex, w1) \<Rightarrow>
                      (if ex then (Inl (HttpsError ''already-exists'' ''username already taken''), w1)
                       else (Inr (), w1)))
            else (Inr (), w)) of
        (Inl error, w1) \<Rightarrow> (Inl error, w1)
      | (Inr u, w1) \<Rightarrow>
          (case rtdb_transaction (RtdbRef ''usernames'' username)
                  (\<lambda>now currentData.
                     case currentData of
                       None \<Rightarrow> Some [(''created_at'',
                                       if server_value_available w1 then ServerTimestamp else Num now)]
                     | Some v \<Rightarrow> None) w1 of
             (Inl error, w2) \<Rightarrow> (Inl error, w2)
           | (Inr usernameTransactionResult, w2) \<Rightarrow>
               (if committed usernameTransactionResult
                then (case snapshot usernameTransactionResult of
                        None \<Rightarrow> (Inl (JsError None (Some ''Cannot read properties of null'')), w2)
                      | Some v \<Rightarrow> (Inr (field v ''created_at''), w2))
                else (Inl (JsError None
                             (Some ''Transaction aborted - username may have been taken'')), w2))))"

text \<open>
  The \<open>for\<close> loop of step 6 with its \<open>catch\<close>. The result is \<open>Some createdTimestamp\<close>
  after a \<open>break\<close>, and \<open>None\<close> when the loop ends with \<open>usernameCreated\<close> still false.
\<close>

function createUsername_loop :: "string \<Rightarrow> nat \<Rightarrow> world \<Rightarrow> (js_error + fval option) \<times> world" where
  "createUsername_loop username attempt w =
     (if attempt \<le> maxRetries
      then (case createUsername_attempt username attempt w of
              (Inr createdTimestamp, w1) \<Rightarrow> (Inr (Some createdTimestamp), w1)
            | (Inl error, w1) \<Rightarrow>
                (if instanceof_HttpsError error then (Inl error, w1)
                 else if attempt = maxRetries
                 then (Inl (HttpsError ''internal'' ''Something is wrong''), w1)
                 else createUsername_loop username (attempt + 1) w1))
      else (Inr None, w))"
  by pat_completeness auto
termination
  by (relation "measure (\<lambda>(username, attempt, w). Suc maxRetries - attempt)") auto

text \<open>The body of the \<open>try\<close> of step 7, for one value of \<open>attempt\<close>.\<close>

definition createUser_attempt ::
  "string \<Rightarrow> string \<Rightarrow> user_record \<Rightarrow> fval \<Rightarrow> nat \<Rightarrow> world \<Rightarrow> (js_error + unit) \<times> world" where
  "createUser_attempt uid username userRecord createdTimestamp attempt w =
     (case (if attempt > 1 then sleep retryDelay w else (Inr (), w)) of
        (Inl error, w1) \<Rightarrow> (Inl error, w1)
      | (Inr u, w1) \<Rightarrow>
          (case rtdb_transaction (RtdbRef ''users'' uid)
                  (\<lambda>now currentData.
                     case currentData of
                       None \<Rightarrow> Some [(''created_at'', createdTimestamp),
                                      (''username'', Str username),
                                      (''email_address'', Str (email userRecord))]
                     | Some v \<Rightarrow> None) w1 of
             (Inl error, w2) \<Rightarrow> (Inl error, w2)
           | (Inr userTransactionResult, w2) \<Rightarrow>
               (if committed userTransactionResult then (Inr (), w2)
                else (Inl (JsError None
                             (Some ''Transaction aborted - user may already exist'')), w2))))"

text \<open>
  The \<open>for\<close> loop of step 7; its \<open>catch\<close> does not look at the kind of error. On the
  last attempt it removes the username (step 8), whatever the removal answers, and
  throws. The result is \<open>userCreated\<close>.
\<close>

function createUser_loop ::
  "string \<Rightarrow> string \<Rightarrow> user_record \<Rightarrow> fval \<Rightarrow> nat \<Rightarrow> world \<Rightarrow> (js_error + bool) \<times> world" where
  "createUser_loop uid username userRecord createdTimestamp attempt w =
     (if attempt \<le> maxRetries
      then (case createUser_attempt uid username userRecord createdTimestamp attempt w of
              (Inr u, w1) \<Rightarrow> (Inr True, w1)
            | (Inl error, w1) \<Rightarrow>
                (if attempt = maxRetries
                 then (case rtdb_remove (RtdbRef ''usernames'' username) w1 of
                         (cleanup, w2) \<Rightarrow> (Inl (HttpsError ''internal'' ''Something is Wrong''), w2))
                 else createUser_loop uid username userRecord createdTimestamp (attempt + 1) w1))
      else (Inr False, w))"
  by pat_completeness auto
termination
  by (relation "measure (\<lambda>(uid, username, userRecord, createdTimestamp, attempt, w).
                           Suc maxRetries - attempt)") auto

definition createNewUser_try :: "js_data \<Rightarrow> callable_context \<Rightarrow> world \<Rightarrow> (js_error + response) \<times> world" where
  "createNewUser_try data context w =
     (case auth_uid context of
        None \<Rightarrow> (Inl (HttpsError ''unauthenticated'' ''Authentication required''), w)
      | Some uid \<Rightarrow>
     (case getUser uid w of
        (Inl error, w1) \<Rightarrow> (Inl (HttpsError ''internal'' ''Failed to retrieve user information''), w1)
      | (Inr userRecord, w1) \<Rightarrow>
     (if \<not> emailVerified userRecord
      then (Inl (HttpsError ''failed-precondition'' ''use a verified email address to continue''), w1)
      else
     (case username_string data of
        None \<Rightarrow> (Inl (HttpsError ''invalid-argument''
                        ''username is required and must be a string''), w1)
      | Some raw \<Rightarrow>
     (let username = trim raw in
      if \<not> regex_match usernameRegex username
      then (Inl (HttpsError ''invalid-argument'' ''username rules failed''), w1)
      else
     (case rtdb_once (RtdbRef ''users'' uid) w1 of
        (Inl error, w2) \<Rightarrow> (Inl error, w2)
      | (Inr userExists, w2) \<Rightarrow>
     (if userExists
      then (Inl (HttpsError ''already-exists'' ''user already exists''), w2)
      else
     (case rtdb_once (RtdbRef ''usernames'' username) w2 of
        (Inl error, w3) \<Rightarrow> (Inl error, w3)
      | (Inr usernameExists, w3) \<Rightarrow>
     (if usernameExists
      then (Inl (HttpsError ''already-exists'' ''username already taken''), w3)
      else
     (case createUsername_loop username 1 w3 of
        (Inl error, w4) \<Rightarrow> (Inl error, w4)
      | (Inr None, w4) \<Rightarrow> (Inl (HttpsError ''internal'' ''Something is wrong''), w4)
      | (Inr (Some createdTimestamp), w4) \<Rightarrow>
     (case createUser_loop uid username userRecord createdTimestamp 1 w4 of
        (Inl error, w5) \<Rightarrow> (Inl error, w5)
      | (Inr False, w5) \<Rightarrow>
          (case rtdb_remove (RtdbRef ''usernames'' username) w5 of
             (cleanup, w6) \<Rightarrow> (Inl (HttpsError ''internal'' ''Something is Wrong''), w6))
      | (Inr True, w5) \<Rightarrow>
          (Inr \<lparr>resp_success = True, resp_username = Some username, resp_uid = Some uid\<rparr>,
           w5))))))))))))"

definition createNewUser :: "js_data \<Rightarrow> callable_context \<Rightarrow> world \<Rightarrow> (js_error + response) \<times> world" where
  "createNewUser data context w = top_level_catch (createNewUser_try data context w)"

section \<open>createNewUser on Firestore (one two-document transaction)\<close>

text \<open>The body of the \<open>try\<close> of step 6, for one value of \<open>attempt\<close>.\<close>

definition createNewUserHandler_attempt ::
  "string \<Rightarrow> string \<Rightarrow> user_record \<Rightarrow> nat \<Rightarrow> world \<Rightarrow> (js_error + unit) \<times> world" where
  "createNewUserHandler_attempt uid username userRecord attempt w =
     (case (if attempt > 1 then sleep retryDelay w else (Inr (), w)) of
        (Inl error, w1) \<Rightarrow> (Inl error, w1)
      | (Inr u, w1) \<Rightarrow>
          (case getServerTimestamp w1 of
             Inl error \<Rightarrow> (Inl error, w1)
           | Inr timestamp \<Rightarrow>
               fs_runTransaction
                 (\<lambda>transaction_get.
                    if transaction_get (FsDoc ''users'' uid)
                    then Inl (JsError None (Some ''User already exists''))
                    else if transaction_get (FsDoc ''usernames'' username)
                    then Inl (HttpsError ''already-exists''
                                (''username '' @ username @ '' already taken''))
                    else Inr [(FsDoc ''usernames'' username,
                                 [(''uid'', Str uid), (''created_at'', timestamp)]),
                              (FsDoc ''users'' uid,
                                 [(''created_at'', timestamp),
                                  (''username'', Str username),
                                  (''email_address'', Str (email userRecord))])]) w1))"

text \<open>The \<open>for\<close> loop of step 6 with its \<open>catch\<close>; the result is \<open>userCreated\<close>.\<close>

function createNewUserHandler_loop ::
  "string \<Rightarrow> string \<Rightarrow> user_record \<Rightarrow> nat \<Rightarrow> world \<Rightarrow> (js_error + bool) \<times> world" where
  "createNewUserHandler_loop uid username userRecord attempt w =
     (if attempt \<le> maxRetries
      then (case createNewUserHandler_attempt uid username userRecord attempt w of
              (Inr u, w1) \<Rightarrow> (Inr True, w1)
            | (Inl error, w1) \<Rightarrow>
                (if instanceof_HttpsError error then (Inl error, w1)
                 else if attempt = maxRetries
                 then (Inl (HttpsError ''internal'' ''Something is wrong''), w1)
                 else createNewUserHandler_loop uid username userRecord (attempt + 1) w1))
      else (Inr False, w))"
  by pat_completeness auto
termination
  by (relation "measure (\<lambda>(uid, username, userRecord, attempt, w). Suc maxRetries - attempt)") auto

definition createNewUserHandler_try ::
  "js_data \<Rightarrow> callable_context \<Rightarrow> world \<Rightarrow> (js_error + response) \<times> world" where
  "createNewUserHandler_try data context w =
     (if \<not> app context
      then (Inl (HttpsError ''failed-precondition'' ''App Check verification failed''), w)
      else
     (case auth_uid context of
        None \<Rightarrow> (Inl (HttpsError ''unauthenticated'' ''Authentication required''), w)
      | Some uid \<Rightarrow>
     (case getUser uid w of
        (Inl error, w1) \<Rightarrow> (Inl (HttpsError ''internal'' ''Failed to retrieve user information''), w1)
      | (Inr userRecord, w1) \<Rightarrow>
     (if \<not> emailVerified userRecord
      then (Inl (HttpsError ''failed-precondition'' ''use a verified email address to continue''), w1)
      else
     (case username_string data of
        None \<Rightarrow> (Inl (HttpsError ''invalid-argument''
                        ''username is required and must be a string''), w1)
      | Some raw \<Rightarrow>
     (let username = trim raw in
      if \<not> regex_match usernameRegex username
      then (Inl (HttpsError ''invalid-argument'' ''username rules failed''), w1)
      else
     (case fs_get (FsDoc ''users'' uid) w1 of
        (Inl error, w2) \<Rightarrow> (Inl error, w2)
      | (Inr userExists, w2) \<Rightarrow>
     (if userExists
      then (Inl (HttpsError ''already-exists'' ''user already exists''), w2)
      else
     (case createNewUserHandler_loop uid username userRecord 1 w2 of
        (Inl error, w3) \<Rightarrow> (Inl error, w3)
      | (Inr False, w3) \<Rightarrow> (Inl (HttpsError ''internal'' ''Something is wrong''), w3)
      | (Inr True, w3) \<Rightarrow>
          (Inr \<lparr>resp_success = True, resp_username = None, resp_uid = None\<rparr>, w3))))))))))"

definition createNewUserHandler ::
  "js_data \<Rightarrow> callable_context \<Rightarrow> world \<Rightarrow> (js_error + response) \<times> world" where
  "createNewUserHandler data context w = top_level_catch (createNewUserHandler_try data context w)"

section \<open>quickMatch: joining the matchmaking queue\<close>

text \<open>
  \<open>const uid = context.auth.uid\<close> after the gate has passed. The gate has checked that
  it is there; reading it from a missing \<open>context.auth\<close> would throw a TypeError.
\<close>

definition context_auth_uid :: "callable_context \<Rightarrow> js_error + string" where
  "context_auth_uid context =
     (case auth context of
        None \<Rightarrow> Inl (JsError None (Some ''Cannot read properties of null''))
      | Some None \<Rightarrow> Inr []
      | Some (Some uid) \<Rightarrow> Inr uid)"

definition quickMatchHandler_try ::
  "js_data \<Rightarrow> callable_context \<Rightarrow> world \<Rightarrow> (js_error + response) \<times> world" where
  "quickMatchHandler_try data context w =
     (case validateAuthAndEmail context ''quickMatch'' w of
        (Inl error, w1) \<Rightarrow> (Inl error, w1)
      | (Inr u, w1) \<Rightarrow>
     (case context_auth_uid context of
        Inl error \<Rightarrow> (Inl error, w1)
      | Inr uid \<Rightarrow>
     (case rtdb_once (RtdbRef ''presence'' uid) w1 of
        (Inl error, w2) \<Rightarrow> (Inl error, w2)
      | (Inr presenceExists, w2) \<Rightarrow>
     (if \<not> presenceExists
      then (Inl (HttpsError ''failed-precondition'' ''User Not Online''), w2)
      else
     (case fs_get (FsDoc ''quick_matchmaking_queue'' uid) w2 of
        (Inl error, w3) \<Rightarrow> (Inl error, w3)
      | (Inr queueDocExists, w3) \<Rightarrow>
     (if queueDocExists
      then (Inl (HttpsError ''already-exists'' ''User Already Waiting to be matched''), w3)
      else
     (case getServerTimestamp w3 of
        Inl error \<Rightarrow> (Inl error, w3)
      | Inr timestamp \<Rightarrow>
     (case fs_set (FsDoc ''quick_matchmaking_queue'' uid)
             [(''uid'', Str uid), (''created_at'', timestamp), (''status'', Str ''waiting'')] w3 of
        (Inl error, w4) \<Rightarrow> (Inl error, w4)
      | (Inr u', w4) \<Rightarrow>
          (Inr \<lparr>resp_success = True, resp_username = None, resp_uid = None\<rparr>, w4)))))))))"

definition quickMatchHandler ::
  "js_data \<Rightarrow> callable_context \<Rightarrow> world \<Rightarrow> (js_error + response) \<times> world" where
  "quickMatchHandler data context w = top_level_catch (quickMatchHandler_try data context w)"

section \<open>cancelQuickMatch: leaving the matchmaking queue\<close>

definition isLockedError :: "js_error \<Rightarrow> bool" where
  "isLockedError error =
     (error_code error = Some ''aborted'' \<or>
      error_code error = Some ''failed-precondition'' \<or>
      error_code error = Some ''unavailable'' \<or>
      (case error_message error of None \<Rightarrow> False | Some m \<Rightarrow> includes_str m ''concurrent'') \<or>
      (case error_message error of None \<Rightarrow> False | Some m \<Rightarrow> includes_str m ''locked''))"

text \<open>The body of the \<open>try\<close> of deleteWithRetry: both ways out return true.\<close>

definition deleteWithRetry_attempt :: "path \<Rightarrow> world \<Rightarrow> (js_error + bool) \<times> world" where
  "deleteWithRetry_attempt docRef w =
     (case fs_get docRef w of
        (Inl error, w1) \<Rightarrow> (Inl error, w1)
      | (Inr docExists, w1) \<Rightarrow>
          (if \<not> docExists then (Inr True, w1)
           else (case fs_delete docRef w1 of
                   (Inl error, w2) \<Rightarrow> (Inl error, w2)
                 | (Inr u, w2) \<Rightarrow> (Inr True, w2))))"

function deleteWithRetry_loop ::
  "path \<Rightarrow> nat \<Rightarrow> nat \<Rightarrow> nat \<Rightarrow> world \<Rightarrow> (js_error + bool) \<times> world" where
  "deleteWithRetry_loop docRef maxRetries' retryDelayMs attempt w =
     (if attempt \<le> maxRetries'
      then (case deleteWithRetry_attempt docRef w of
              (Inr deleted, w1) \<Rightarrow> (Inr deleted, w1)
            | (Inl error, w1) \<Rightarrow>
                (if isLockedError error \<and> attempt < maxRetries'
                 then (case sleep retryDelayMs w1 of
                         (Inl error', w2) \<Rightarrow> (Inl error', w2)
                       | (Inr u, w2) \<Rightarrow>
                           deleteWithRetry_loop docRef maxRetries' retryDelayMs (attempt + 1) w2)
                 else (Inr False, w1)))
      else (Inr False, w))"
  by pat_completeness auto
termination
  by (relation "measure (\<lambda>(docRef, maxRetries', retryDelayMs, attempt, w).
                           Suc maxRetries' - attempt)") auto

definition deleteWithRetry :: "path \<Rightarrow> nat \<Rightarrow> nat \<Rightarrow> world \<Rightarrow> (js_error + bool) \<times> world" where
  "deleteWithRetry docRef maxRetries' retryDelayMs w =
     deleteWithRetry_loop docRef maxRetries' retryDelayMs 1 w"

definition cancelQuickMatchHandler_try ::
  "js_data \<Rightarrow> callable_context \<Rightarrow> world \<Rightarrow> (js_error + response) \<times> world" where
  "cancelQuickMatchHandler_try data context w =
     (case validateAuthAndEmail context ''cancelQuickMatch'' w of
        (Inl error, w1) \<Rightarrow> (Inl error, w1)
      | (Inr u, w1) \<Rightarrow>
     (case context_auth_uid context of
        Inl error \<Rightarrow> (Inl error, w1)
      | Inr uid \<Rightarrow>
     (case deleteWithRetry (FsDoc ''quick_matchmaking_queue'' uid) 10 500 w1 of
        (Inl error, w2) \<Rightarrow> (Inl error, w2)
      | (Inr deleted, w2) \<Rightarrow>
          (Inr \<lparr>resp_success = True, resp_username = None, resp_uid = None\<rparr>, w2))))"

definition cancelQuickMatchHandler ::
  "js_data \<Rightarrow> callable_context \<Rightarrow> world \<Rightarrow> (js_error + response) \<times> world" where
  "cancelQuickMatchHandler data context w =
     top_level_catch (cancelQuickMatchHandler_try data context w)"

section \<open>Example requests and worlds\<close>

text \<open>
  Two registered callers with verified e-mail addresses, an empty store, and a quiet
  schedule; the examples below change the schedule or the store of this world.
\<close>

definition quiet_world :: world where
  "quiet_world =
     \<lparr>store = Map.empty,
      accounts = [''uid-1'' \<mapsto> \<lparr>email = ''one@example.com'', emailVerified = True\<rparr>,
                  ''uid-2'' \<mapsto> \<lparr>email = ''two@example.com'', emailVerified = True\<rparr>],
      clock = 1000,
      server_value_available = True,
      field_value_available = True,
      schedule = [],
      trace = []\<rparr>"

definition caller1 :: callable_context where
  "caller1 = \<lparr>app = True, auth = Some (Some ''uid-1'')\<rparr>"

definition caller2 :: callable_context where
  "caller2 = \<lparr>app = True, auth = Some (Some ''uid-2'')\<rparr>"

definition ok_step :: env_step where
  "ok_step = \<lparr>others = [], fault = None\<rparr>"

definition failing :: "js_error \<Rightarrow> env_step" where
  "failing e = \<lparr>others = [], fault = Some e\<rparr>"

section \<open>Reading the history\<close>

text \<open>The calls made between two worlds of one run, oldest first.\<close>

definition new_events :: "world \<Rightarrow> world \<Rightarrow> event list" where
  "new_events w w' = drop (length (trace w)) (trace w')"

fun is_delete_call :: "event \<Rightarrow> bool" where
  "is_delete_call (FsDelete p r) = True"
| "is_delete_call ev = False"

definition delete_calls :: "event list \<Rightarrow> nat" where
  "delete_calls evs = length (filter is_delete_call evs)"

text \<open>The durations of the sleeps, in order.\<close>

fun sleeps :: "event list \<Rightarrow> nat list" where
  "sleeps [] = []"
| "sleeps (Sleep ms # evs) = ms # sleeps evs"
| "sleeps (ev # evs) = sleeps evs"

text \<open>
  A history in which every delete attempt reports a contended error: each existence
  check found the document, and each delete was rejected with a locked error.
\<close>

fun delete_fails_contended :: "event \<Rightarrow> bool" where
  "delete_fails_contended (FsGet p r) = (r = Inr True)"
| "delete_fails_contended (FsDelete p r) = (case r of Inl e \<Rightarrow> isLockedError e | Inr u \<Rightarrow> False)"
| "delete_fails_contended ev = True"

text \<open>Caller 1 is waiting in the queue.\<close>

definition waiting_world :: world where
  "waiting_world =
     quiet_world\<lparr>store := [FsDoc ''quick_matchmaking_queue'' ''uid-1'' \<mapsto>
                        [(''uid'', Str ''uid-1''), (''created_at'', Num 900),
                         (''status'', Str ''waiting'')]]\<rparr>"

definition lockedError :: js_error where
  "lockedError = JsError (Some ''aborted'') (Some ''Document locked'')"

definition otherError :: js_error where
  "otherError = JsError (Some ''permission-denied'') (Some ''Permission denied'')"

text \<open>The documents that the committed transactions of a history wrote, in order.\<close>

fun event_writes :: "event \<Rightarrow> (path \<times> doc) list" where
  "event_writes (RtdbTransaction p (Inr res)) =
     (if committed res then (case snapshot res of None \<Rightarrow> [] | Some d \<Rightarrow> [(p, d)]) else [])"
| "event_writes (FsRunTransaction (Inr ws)) = ws"
| "event_writes ev = []"

definition transaction_writes :: "event list \<Rightarrow> (path \<times> doc) list" where
  "transaction_writes evs = concat (map event_writes evs)"

section \<open>The username rules in words\<close>

text \<open>
  The rule as the documentation of createNewUser states it: 8 to 15 characters, the first
  a lowercase letter, the others lowercase letters, digits or underscores.
\<close>

definition lowercase_letter :: "char \<Rightarrow> bool" where
  "lowercase_letter c = (CHR ''a'' \<le> c \<and> c \<le> CHR ''z'')"

definition decimal_digit :: "char \<Rightarrow> bool" where
  "decimal_digit c = (CHR ''0'' \<le> c \<and> c \<le> CHR ''9'')"

definition username_rules :: "string \<Rightarrow> bool" where
  "username_rules s =
     (8 \<le> length s \<and> length s \<le> 15 \<and>
      (case s of
         [] \<Rightarrow> False
       | c # cs \<Rightarrow> lowercase_letter c \<and>
                   (\<forall>x \<in> set cs. lowercase_letter x \<or> decimal_digit x \<or> x = CHR ''_'')))"

section \<open>Histories of the retry loops\<close>

text \<open>
  The calls one attempt and one whole loop can make, with the result they lead to.
  These relations are read off the loops above and are proved below to cover every run
  of them; the properties of the loops are then shown by induction on the histories.
\<close>

definition recheck :: "string \<Rightarrow> nat \<Rightarrow> event list" where
  "recheck username attempt =
     (if 1 < attempt then [RtdbOnce (RtdbRef ''usernames'' username) (Inr False)] else [])"

definition delay :: "nat \<Rightarrow> event list" where
  "delay attempt = (if 1 < attempt then [Sleep retryDelay] else [])"

inductive createUsername_attempt_history ::
  "string \<Rightarrow> nat \<Rightarrow> event list \<Rightarrow> js_error + fval \<Rightarrow> bool" where
  ua_taken:
    "1 < attempt \<Longrightarrow>
     createUsername_attempt_history username attempt
       [RtdbOnce (RtdbRef ''usernames'' username) (Inr True)]
       (Inl (HttpsError ''already-exists'' ''username already taken''))"
| ua_read_rejected:
    "1 < attempt \<Longrightarrow>
     createUsername_attempt_history username attempt
       [RtdbOnce (RtdbRef ''usernames'' username) (Inl e)] (Inl e)"
| ua_rejected:
    "createUsername_attempt_history username attempt
       (recheck username attempt @ [RtdbTransaction (RtdbRef ''usernames'' username) (Inl e)])
       (Inl e)"
| ua_aborted:
    "\<not> committed res \<Longrightarrow>
     createUsername_attempt_history username attempt
       (recheck username attempt @ [RtdbTransaction (RtdbRef ''usernames'' username) (Inr res)])
       (Inl (JsError None (Some ''Transaction aborted - username may have been taken'')))"
| ua_committed:
    "committed res \<Longrightarrow> snapshot res = Some d \<Longrightarrow> field d ''created_at'' = Num t \<Longrightarrow>
     createUsername_attempt_history username attempt
       (recheck username attempt @ [RtdbTransaction (RtdbRef ''usernames'' username) (Inr res)])
       (Inr (Num t))"

inductive createUsername_history ::
  "string \<Rightarrow> nat \<Rightarrow> event list \<Rightarrow> js_error + fval option \<Rightarrow> bool" where
  ul_over:
    "\<not> attempt \<le> maxRetries \<Longrightarrow> createUsername_history username attempt [] (Inr None)"
| ul_created:
    "attempt \<le> maxRetries \<Longrightarrow>
     createUsername_attempt_history username attempt evs (Inr createdTimestamp) \<Longrightarrow>
     createUsername_history username attempt evs (Inr (Some createdTimestamp))"
| ul_rethrown:
    "attempt \<le> maxRetries \<Longrightarrow>
     createUsername_attempt_history username attempt evs (Inl e) \<Longrightarrow>
     instanceof_HttpsError e \<Longrightarrow>
     createUsername_history username attempt evs (Inl e)"
| ul_exhausted:
    "attempt = maxRetries \<Longrightarrow>
     createUsername_attempt_history username attempt evs (Inl e) \<Longrightarrow>
     \<not> instanceof_HttpsError e \<Longrightarrow>
     createUsername_history username attempt evs (Inl (HttpsError ''internal'' ''Something is wrong''))"
| ul_retry:
    "attempt < maxRetries \<Longrightarrow>
     createUsername_attempt_history username attempt evs (Inl e) \<Longrightarrow>
     \<not> instanceof_HttpsError e \<Longrightarrow>
     createUsername_history username (attempt + 1) evs' r \<Longrightarrow>
     createUsername_history username attempt (evs @ evs') r"

inductive createUser_attempt_history ::
  "string \<Rightarrow> doc \<Rightarrow> nat \<Rightarrow> event list \<Rightarrow> js_error + unit \<Rightarrow> bool" where
  usa_rejected:
    "createUser_attempt_history uid d attempt
       (delay attempt @ [RtdbTransaction (RtdbRef ''users'' uid) (Inl e)]) (Inl e)"
| usa_aborted:
    "\<not> committed res \<Longrightarrow>
     createUser_attempt_history uid d attempt
       (delay attempt @ [RtdbTransaction (RtdbRef ''users'' uid) (Inr res)])
       (Inl (JsError None (Some ''Transaction aborted - user may already exist'')))"
| usa_committed:
    "committed res \<Longrightarrow> snapshot res = Some (resolve now d) \<Longrightarrow>
     createUser_attempt_history uid d attempt
       (delay attempt @ [RtdbTransaction (RtdbRef ''users'' uid) (Inr res)]) (Inr ())"

inductive createUser_history ::
  "string \<Rightarrow> string \<Rightarrow> doc \<Rightarrow> nat \<Rightarrow> event list \<Rightarrow> js_error + bool \<Rightarrow> bool" where
  usl_over:
    "\<not> attempt \<le> maxRetries \<Longrightarrow> createUser_history uid username d attempt [] (Inr False)"
| usl_created:
    "attempt \<le> maxRetries \<Longrightarrow>
     createUser_attempt_history uid d attempt evs (Inr u) \<Longrightarrow>
     createUser_history uid username d attempt evs (Inr True)"
| usl_exhausted:
    "attempt = maxRetries \<Longrightarrow>
     createUser_attempt_history uid d attempt evs (Inl e) \<Longrightarrow>
     createUser_history uid username d attempt
       (evs @ [RtdbRemove (RtdbRef ''usernames'' username) cleanup])
       (Inl (HttpsError ''internal'' ''Something is Wrong''))"
| usl_retry:
    "attempt < maxRetries \<Longrightarrow>
     createUser_attempt_history uid d attempt evs (Inl e) \<Longrightarrow>
     createUser_history uid username d (attempt + 1) evs' r \<Longrightarrow>
     createUser_history uid username d attempt (evs @ evs') r"

inductive createNewUserHandler_attempt_history ::
  "string \<Rightarrow> string \<Rightarrow> user_record \<Rightarrow> nat \<Rightarrow> event list \<Rightarrow> js_error + unit \<Rightarrow> bool" where
  ha_no_timestamp:
    "createNewUserHandler_attempt_history uid username userRecord attempt (delay attempt)
       (Inl (JsError None
               (Some ''Firestore FieldValue is not available. Ensure admin is initialized.'')))"
| ha_failed:
    "createNewUserHandler_attempt_history uid username userRecord attempt
       (delay attempt @ [FsRunTransaction (Inl e)]) (Inl e)"
| ha_committed:
    "createNewUserHandler_attempt_history uid username userRecord attempt
       (delay attempt @
        [FsRunTransaction
           (Inr [(FsDoc ''usernames'' username,
                    [(''uid'', Str uid), (''created_at'', Num now)]),
                 (FsDoc ''users'' uid,
                    [(''created_at'', Num now),
                     (''username'', Str username),
                     (''email_address'', Str (email userRecord))])])])
       (Inr ())"

inductive createNewUserHandler_history ::
  "string \<Rightarrow> string \<Rightarrow> user_record \<Rightarrow> nat \<Rightarrow> event list \<Rightarrow> js_error + bool \<Rightarrow> bool" where
  hl_over:
    "\<not> attempt \<le> maxRetries \<Longrightarrow>
     createNewUserHandler_history uid username userRecord attempt [] (Inr False)"
| hl_created:
    "attempt \<le> maxRetries \<Longrightarrow>
     createNewUserHandler_attempt_history uid username userRecord attempt evs (Inr u) \<Longrightarrow>
     createNewUserHandler_history uid username userRecord attempt evs (Inr True)"
| hl_rethrown:
    "attempt \<le> maxRetries \<Longrightarrow>
     createNewUserHandler_attempt_history uid username userRecord attempt evs (Inl e) \<Longrightarrow>
     instanceof_HttpsError e \<Longrightarrow>
     createNewUserHandler_history uid username userRecord attempt evs (Inl e)"
| hl_exhausted:
    "attempt = maxRetries \<Longrightarrow>
     createNewUserHandler_attempt_history uid username userRecord attempt evs (Inl e) \<Longrightarrow>
     \<not> instanceof_HttpsError e \<Longrightarrow>
     createNewUserHandler_history uid username userRecord attempt evs
       (Inl (HttpsError ''internal'' ''Something is wrong''))"
| hl_retry:
    "attempt < maxRetries \<Longrightarrow>
     createNewUserHandler_attempt_history uid username userRecord attempt evs (Inl e) \<Longrightarrow>
     \<not> instanceof_HttpsError e \<Longrightarrow>
     createNewUserHandler_history uid username userRecord (attempt + 1) evs' r \<Longrightarrow>
     createNewUserHandler_history uid username userRecord attempt (evs @ evs') r"

text \<open>
  A world is settled for a call when it shows what the call did: a committed write is
  in the store, a removed key is gone. The world a handler ends in is settled for the
  last call it made.
\<close>

fun settled :: "event \<Rightarrow> world \<Rightarrow> bool" where
  "settled (RtdbTransaction p (Inr res)) w = (committed res \<longrightarrow> store w p = snapshot res)"
| "settled (RtdbRemove p (Inr u)) w = (store w p = None)"
| "settled (FsRunTransaction (Inr ws)) w = list_all (\<lambda>(p, d). store w p = Some d) ws"
| "settled (FsSet p d (Inr u)) w = (store w p = Some (resolve (clock w) d))"
| "settled (FsDelete p (Inr u)) w = (store w p = None)"
| "settled ev w = True"

text \<open>Is the call a transaction on the user record of some caller?\<close>

fun is_user_transaction :: "event \<Rightarrow> bool" where
  "is_user_transaction (RtdbTransaction p r) = (keyspace p = ''users'')"
| "is_user_transaction ev = False"

fun is_run_transaction :: "event \<Rightarrow> bool" where
  "is_run_transaction (FsRunTransaction r) = True"
| "is_run_transaction ev = False"

text \<open>
  Does the call touch the \<open>users\<close> keyspace of either database? A Firestore
  transaction counts as touching it, whatever it reads.
\<close>

fun users_keyspace_call :: "event \<Rightarrow> bool" where
  "users_keyspace_call (RtdbOnce p r) = (keyspace p = ''users'')"
| "users_keyspace_call (RtdbTransaction p r) = (keyspace p = ''users'')"
| "users_keyspace_call (RtdbRemove p r) = (keyspace p = ''users'')"
| "users_keyspace_call (FsGet p r) = (keyspace p = ''users'')"
| "users_keyspace_call (FsSet p d r) = (keyspace p = ''users'')"
| "users_keyspace_call (FsDelete p r) = (keyspace p = ''users'')"
| "users_keyspace_call (FsRunTransaction r) = True"
| "users_keyspace_call ev = False"

text \<open>Caller 1 is online and not in the queue; no user record exists for anyone.\<close>

definition online_world :: world where
  "online_world = quiet_world\<lparr>store := [RtdbRef ''presence'' ''uid-1'' \<mapsto> [(''online'', Str ''true'')]]\<rparr>"

text \<open>How often the history calls \<open>db.runTransaction\<close>.\<close>

definition run_transactions :: "event list \<Rightarrow> nat" where
  "run_transactions evs = length (filter is_run_transaction evs)"

text \<open>
  In a delayed history, whatever follows a call of \<open>db.runTransaction\<close> is a sleep of
  \<open>retryDelay\<close> milliseconds.
\<close>

fun delay_follows :: "event \<Rightarrow> event \<Rightarrow> bool" where
  "delay_follows (FsRunTransaction r) next = (next = Sleep retryDelay)"
| "delay_follows ev next = True"

definition retry_delayed :: "event list \<Rightarrow> bool" where
  "retry_delayed evs = list_all (\<lambda>(ev, next). delay_follows ev next) (zip evs (tl evs))"



text \<open>Reading the history of the username loop of the Realtime Database variant.\<close>

fun is_rtdb_transaction :: "event \<Rightarrow> bool" where
  "is_rtdb_transaction (RtdbTransaction p r) = True"
| "is_rtdb_transaction ev = False"

definition rtdb_transactions :: "event list \<Rightarrow> nat" where
  "rtdb_transactions evs = length (filter is_rtdb_transaction evs)"

text \<open>
  In a rechecked history, whatever precedes a transaction is a read of the username key
  that found nothing.
\<close>

fun recheck_precedes :: "string \<Rightarrow> event \<Rightarrow> event \<Rightarrow> bool" where
  "recheck_precedes username prev (RtdbTransaction p r) =
     (prev = RtdbOnce (RtdbRef ''usernames'' username) (Inr False))"
| "recheck_precedes username prev ev = True"

definition retries_rechecked :: "string \<Rightarrow> event list \<Rightarrow> bool" where
  "retries_rechecked username evs =
     list_all (\<lambda>(prev, ev). recheck_precedes username prev ev) (zip evs (tl evs))"

text \<open>
  A call is inconclusive when it neither committed, nor found the key, nor was rejected
  with an HttpsError. An attempt of the loop ends with a transaction, with a rejected
  read or with a read that found the key; a read that found nothing does not end it.
\<close>

fun inconclusive :: "event \<Rightarrow> bool" where
  "inconclusive (RtdbOnce p r) =
     (case r of Inl e \<Rightarrow> \<not> instanceof_HttpsError e | Inr found \<Rightarrow> \<not> found)"
| "inconclusive (RtdbTransaction p r) =
     (case r of Inl e \<Rightarrow> \<not> instanceof_HttpsError e | Inr res \<Rightarrow> \<not> committed res)"
| "inconclusive ev = True"

fun ends_attempt :: "event \<Rightarrow> bool" where
  "ends_attempt (RtdbOnce p r) = (case r of Inl e \<Rightarrow> True | Inr found \<Rightarrow> found)"
| "ends_attempt (RtdbTransaction p r) = True"
| "ends_attempt ev = False"

definition attempts_made :: "event list \<Rightarrow> nat" where
  "attempts_made evs = length (filter ends_attempt evs)"

text \<open>
  Another client creates the username testuser123 on the Realtime Database while the
  call is under way.
\<close>

definition rival_step :: env_step where
  "rival_step =
     \<lparr>others = [Put (RtdbRef ''usernames'' ''testuser123'') [(''created_at'', Num 990)]],
      fault = None\<rparr>"

text \<open>How many transactions on a user record the history shows that did not commit.\<close>

fun user_transaction_failed :: "event \<Rightarrow> bool" where
  "user_transaction_failed (RtdbTransaction p r) =
     (keyspace p = ''users'' \<and> (case r of Inl e \<Rightarrow> True | Inr res \<Rightarrow> \<not> committed res))"
| "user_transaction_failed ev = False"

definition failed_user_transactions :: "event list \<Rightarrow> nat" where
  "failed_user_transactions evs = length (filter user_transaction_failed evs)"

text \<open>
  Caller 1 is online and not in the queue when it reads; with the step of its write
  another client puts an entry under the caller's key.
\<close>

definition rival_entry_step :: env_step where
  "rival_entry_step =
     \<lparr>others = [Put (FsDoc ''quick_matchmaking_queue'' ''uid-1'')
                  [(''uid'', Str ''uid-1''), (''created_at'', Num 990),
                   (''status'', Str ''matched'')]],
      fault = None\<rparr>"

definition racing_world :: world where
  "racing_world = online_world\<lparr>schedule := [ok_step, ok_step, ok_step, rival_entry_step]\<rparr>"

section \<open>Basic facts about the model\<close>

lemma top_level_catch_simps:
  "top_level_catch (Inr v, w) = (Inr v, w)"
  "top_level_catch (Inl (HttpsError c m), w) = (Inl (HttpsError c m), w)"
  "top_level_catch (Inl (JsError c' m'), w) =
     (Inl (HttpsError ''internal'' ''An unexpected error occurred''), w)"
  by (simp_all add: top_level_catch_def)

lemma trace_apply_mutation: "trace (apply_mutation m w) = trace w"
  by (cases m) simp_all

lemma trace_fold_mutations: "trace (fold apply_mutation ms w) = trace w"
  by (induction ms arbitrary: w) (simp_all add: trace_apply_mutation)

lemma trace_next_step: "trace (snd (next_step w)) = trace w"
  by (simp add: next_step_def trace_fold_mutations split: list.splits)

lemma getUser_failure_trace:
  "fst (getUser u w) = Inl error \<Longrightarrow>
   trace (snd (getUser u w)) = trace w @ [AuthGetUser u (Inl error)]"
  using trace_next_step [of w]
  by (auto simp: getUser_def emit_def Let_def split: prod.splits option.splits)

declare createUsername_loop.simps [simp del]
declare createUser_loop.simps [simp del]
declare createNewUserHandler_loop.simps [simp del]

lemma new_events_append: "trace w' = trace w @ evs \<Longrightarrow> new_events w w' = evs"
  by (simp add: new_events_def)

lemma next_step_cases:
  fixes w :: world
  obtains f w1 where "next_step w = (f, w1)" and "trace w1 = trace w"
  using trace_next_step [of w] by (cases "next_step w") auto

lemma rtdb_once_trace: "rtdb_once p w = (r, w') \<Longrightarrow> trace w' = trace w @ [RtdbOnce p r]"
  using trace_next_step [of w]
  by (auto simp: rtdb_once_def emit_def Let_def split: prod.splits option.splits)

lemma rtdb_remove_trace: "rtdb_remove p w = (r, w') \<Longrightarrow> trace w' = trace w @ [RtdbRemove p r]"
  using trace_next_step [of w]
  by (auto simp: rtdb_remove_def emit_def Let_def split: prod.splits option.splits)

lemma rtdb_remove_store:
  "rtdb_remove p w = (Inr u, w') \<Longrightarrow> store w' p = None"
  by (auto simp: rtdb_remove_def emit_def split: prod.splits option.splits)

lemma field_resolve_not_sentinel: "field (resolve now d) k \<noteq> ServerTimestamp"
  by (induction d) (auto simp: field_def resolve_def split: option.splits if_splits)

text \<open>What a transaction on one key of the Realtime Database can answer.\<close>

lemma rtdb_transaction_cases:
  assumes "rtdb_transaction p update w = (r, w')"
  obtains (rejected) e where "r = Inl e" "trace w' = trace w @ [RtdbTransaction p (Inl e)]"
  | (aborted) res where "r = Inr res" "\<not> committed res"
      "trace w' = trace w @ [RtdbTransaction p (Inr res)]"
  | (committed) res and w1 :: world and d where "r = Inr res" "committed res"
      "snapshot res = Some (resolve (clock w1) d)"
      "update (clock w1) (store w1 p) = Some d"
      "store w' p = Some (resolve (clock w1) d)"
      "trace w' = trace w @ [RtdbTransaction p (Inr res)]"
proof -
  obtain f w1 where n: "next_step w = (f, w1)" and t: "trace w1 = trace w"
    by (rule next_step_cases)
  show thesis
  proof (cases f)
    case (Some e)
    with assms n t rejected show ?thesis
      by (auto simp: rtdb_transaction_def emit_def)
  next
    case None
    show ?thesis
    proof (cases "update (clock w1) (store w1 p)")
      case no: None
      with None assms n t aborted show ?thesis
        by (auto simp: rtdb_transaction_def emit_def Let_def)
    next
      case (Some d)
      with None assms n t
        committed [of "\<lparr>committed = True, snapshot = Some (resolve (clock w1) d)\<rparr>" w1 d]
      show ?thesis
        by (auto simp: rtdb_transaction_def emit_def Let_def)
    qed
  qed
qed

text \<open>Every run of one attempt to create the username has one of the histories.\<close>

lemma createUsername_attempt_history:
  assumes "createUsername_attempt username attempt w = (r, w')"
  shows "\<exists>evs. trace w' = trace w @ evs \<and> createUsername_attempt_history username attempt evs r"
proof -
  let ?p = "RtdbRef ''usernames'' username"
  let ?pre = "(if attempt > 1
            then (case rtdb_once ?p w of
                    (Inl error, w1) \<Rightarrow> (Inl error, w1)
                  | (Inr ex, w1) \<Rightarrow>
                      (if ex then (Inl (HttpsError ''already-exists'' ''username already taken''), w1)
                       else (Inr (), w1)))
            else (Inr (), w))"
  obtain r0 w1 where pre: "?pre = (r0, w1)"
    by (cases ?pre)
  show ?thesis
  proof (cases r0)
    case (Inl e)
    then have a: "1 < attempt" using pre by (auto split: if_splits)
    obtain r1 where o: "rtdb_once ?p w = (r1, w1)"
      using pre a Inl by (auto split: prod.splits sum.splits if_splits)
    note t = rtdb_once_trace [OF o]
    from assms pre Inl have rr: "r = Inl e" "w' = w1"
      by (simp_all add: createUsername_attempt_def)
    show ?thesis
    proof (cases r1)
      case e1: (Inl e')
      with pre a Inl o have "e' = e" by auto
      with ua_read_rejected [OF a, of username e] rr t e1 show ?thesis by simp
    next
      case (Inr ex)
      with pre a Inl o have "ex" "e = HttpsError ''already-exists'' ''username already taken''"
        by (auto split: if_splits)
      with ua_taken [OF a, of username] rr t Inr show ?thesis by simp
    qed
  next
    case (Inr u)
    have t1: "trace w1 = trace w @ recheck username attempt"
    proof (cases "1 < attempt")
      case False
      with pre show ?thesis by (simp add: recheck_def)
    next
      case True
      obtain r1 where o: "rtdb_once ?p w = (r1, w1)"
        using pre True Inr by (auto split: prod.splits sum.splits if_splits)
      with pre True Inr have "r1 = Inr False" by (auto split: sum.splits if_splits)
      with rtdb_once_trace [OF o] True show ?thesis by (simp add: recheck_def)
    qed
    let ?tx = "rtdb_transaction ?p
                  (\<lambda>now currentData.
                     case currentData of
                       None \<Rightarrow> Some [(''created_at'',
                                       if server_value_available w1 then ServerTimestamp else Num now)]
                     | Some v \<Rightarrow> None) w1"
    obtain r2 w2 where tx: "?tx = (r2, w2)"
      by (cases ?tx)
    from tx show ?thesis
    proof (cases rule: rtdb_transaction_cases)
      case (rejected e)
      with assms pre Inr tx have "r = Inl e" "w' = w2"
        by (simp_all add: createUsername_attempt_def)
      with rejected t1 ua_rejected [of username attempt e] show ?thesis by simp
    next
      case (aborted res)
      with assms pre Inr tx
      have "r = Inl (JsError None (Some ''Transaction aborted - username may have been taken''))"
        "w' = w2"
        by (simp_all add: createUsername_attempt_def)
      with aborted t1 ua_aborted [of res username attempt] show ?thesis by simp
    next
      case (committed res w0 d)
      from committed(4) obtain t where f: "field (resolve (clock w0) d) ''created_at'' = Num t"
        by (auto simp: field_def resolve_def split: option.splits if_splits)
      from assms pre Inr tx committed f have "r = Inr (Num t)" "w' = w2"
        by (simp_all add: createUsername_attempt_def)
      with committed t1 f ua_committed [of res "resolve (clock w0) d" t username attempt]
      show ?thesis by simp
    qed
  qed
qed

lemma createUsername_loop_step:
  "attempt \<le> maxRetries \<Longrightarrow> createUsername_attempt username attempt w = (ra, w1) \<Longrightarrow>
   createUsername_loop username attempt w =
     (case ra of
        Inr createdTimestamp \<Rightarrow> (Inr (Some createdTimestamp), w1)
      | Inl e \<Rightarrow>
          if instanceof_HttpsError e then (Inl e, w1)
          else if attempt = maxRetries
          then (Inl (HttpsError ''internal'' ''Something is wrong''), w1)
          else createUsername_loop username (attempt + 1) w1)"
  by (simp add: createUsername_loop.simps [of username attempt w])

lemma createUsername_loop_history:
  "createUsername_loop username attempt w = (r, w') \<Longrightarrow>
   \<exists>evs. trace w' = trace w @ evs \<and> createUsername_history username attempt evs r"
proof (induction username attempt w arbitrary: r w' rule: createUsername_loop.induct)
  case (1 username attempt w)
  show ?case
  proof (cases "attempt \<le> maxRetries")
    case False
    with "1.prems" ul_over [of attempt username] show ?thesis
      by (simp add: createUsername_loop.simps [of username attempt w])
  next
    case True
    obtain ra w1 where att: "createUsername_attempt username attempt w = (ra, w1)"
      by (cases "createUsername_attempt username attempt w")
    note step = createUsername_loop_step [OF True att]
    from createUsername_attempt_history [OF att]
    obtain evs where t: "trace w1 = trace w @ evs"
      and h: "createUsername_attempt_history username attempt evs ra" by blast
    show ?thesis
    proof (cases ra)
      case (Inr ts)
      with step have "createUsername_loop username attempt w = (Inr (Some ts), w1)" by simp
      with "1.prems" have "r = Inr (Some ts)" "w' = w1" by simp_all
      with ul_created [OF True] h Inr t show ?thesis by auto
    next
      case (Inl e)
      show ?thesis
      proof (cases "instanceof_HttpsError e")
        case https: True
        with step Inl have "createUsername_loop username attempt w = (Inl e, w1)" by simp
        with "1.prems" have "r = Inl e" "w' = w1" by simp_all
        with ul_rethrown [OF True _ https] h Inl t show ?thesis by auto
      next
        case False
        show ?thesis
        proof (cases "attempt = maxRetries")
          case last: True
          with step Inl False
          have "createUsername_loop username attempt w =
                  (Inl (HttpsError ''internal'' ''Something is wrong''), w1)" by simp
          with "1.prems"
          have "r = Inl (HttpsError ''internal'' ''Something is wrong'')" "w' = w1"
            by simp_all
          with ul_exhausted [OF last _ False] h Inl t show ?thesis by auto
        next
          case more: False
          with step Inl False
          have "createUsername_loop username attempt w =
                  createUsername_loop username (attempt + 1) w1" by simp
          with "1.prems" have rec: "createUsername_loop username (attempt + 1) w1 = (r, w')"
            by simp
          from "1.IH" [OF True att [symmetric] Inl False more rec]
          obtain evs' where t': "trace w' = trace w1 @ evs'"
            and h': "createUsername_history username (attempt + 1) evs' r" by blast
          from more True have lt: "attempt < maxRetries" by simp
          from ul_retry [OF lt _ False h'] h Inl t t' show ?thesis by auto
        qed
      qed
    qed
  qed
qed

lemma sleep_world: "sleep ms w = (Inr (), w\<lparr>clock := clock w + ms, trace := trace w @ [Sleep ms]\<rparr>)"
  by (simp add: sleep_def emit_def)

lemma rtdb_transaction_settled:
  assumes "rtdb_transaction p update w = (r, w')"
  shows "settled (RtdbTransaction p r) w'"
proof -
  obtain f w1 where n: "next_step w = (f, w1)" by (cases "next_step w")
  with assms show ?thesis
    by (cases r)
      (auto simp: rtdb_transaction_def emit_def Let_def split: option.splits)
qed

lemma rtdb_remove_settled:
  assumes "rtdb_remove p w = (r, w')"
  shows "settled (RtdbRemove p r) w'"
proof -
  obtain f w1 where n: "next_step w = (f, w1)" by (cases "next_step w")
  with assms show ?thesis
    by (cases r) (auto simp: rtdb_remove_def emit_def split: option.splits)
qed

text \<open>Every run of one attempt to create the user has one of the histories.\<close>

lemma createUser_attempt_history:
  assumes "createUser_attempt uid username userRecord createdTimestamp attempt w = (r, w')"
  shows "\<exists>evs. trace w' = trace w @ evs
           \<and> createUser_attempt_history uid
                [(''created_at'', createdTimestamp), (''username'', Str username),
                 (''email_address'', Str (email userRecord))] attempt evs r
           \<and> evs \<noteq> [] \<and> settled (last evs) w'"
proof -
  let ?p = "RtdbRef ''users'' uid"
  let ?d = "[(''created_at'', createdTimestamp), (''username'', Str username),
                 (''email_address'', Str (email userRecord))]"
  let ?pre = "(if attempt > 1 then sleep retryDelay w else (Inr (), w))"
  obtain r0 w1 where pre: "?pre = (r0, w1)"
    by (cases ?pre)
  then have r0: "r0 = Inr ()" and t1: "trace w1 = trace w @ delay attempt"
    by (auto simp: sleep_def emit_def delay_def split: if_splits)
  let ?tx = "rtdb_transaction ?p
                  (\<lambda>now currentData.
                     case currentData of
                       None \<Rightarrow> Some ?d
                     | Some v \<Rightarrow> None) w1"
  obtain r2 w2 where tx: "?tx = (r2, w2)"
    by (cases ?tx)
  note st = rtdb_transaction_settled [OF tx]
  from tx show ?thesis
  proof (cases rule: rtdb_transaction_cases)
    case (rejected e)
    with assms pre r0 tx have "r = Inl e" "w' = w2"
      by (simp_all add: createUser_attempt_def)
    with rejected t1 st usa_rejected [of uid ?d attempt e] show ?thesis by simp
  next
    case (aborted res)
    with assms pre r0 tx
    have "r = Inl (JsError None (Some ''Transaction aborted - user may already exist''))"
      "w' = w2"
      by (simp_all add: createUser_attempt_def)
    with aborted t1 st usa_aborted [of res uid ?d attempt] show ?thesis by simp
  next
    case (committed res w0 d)
    from committed(4) have d: "d = ?d" by (auto split: option.splits)
    from assms pre r0 tx committed have "r = Inr ()" "w' = w2"
      by (simp_all add: createUser_attempt_def)
    with committed t1 st d usa_committed [of res "clock w0" ?d uid attempt]
    show ?thesis by simp
  qed
qed

lemma createUser_attempt_history_nonempty:
  "createUser_attempt_history uid d attempt evs r \<Longrightarrow> evs \<noteq> []"
  by (cases rule: createUser_attempt_history.cases) auto

lemma createUser_history_nonempty:
  "createUser_history uid username d attempt evs r \<Longrightarrow> attempt \<le> maxRetries \<Longrightarrow> evs \<noteq> []"
  by (cases rule: createUser_history.cases)
     (auto dest: createUser_attempt_history_nonempty)

lemma createUser_loop_step:
  "attempt \<le> maxRetries \<Longrightarrow>
   createUser_attempt uid username userRecord createdTimestamp attempt w = (ra, w1) \<Longrightarrow>
   createUser_loop uid username userRecord createdTimestamp attempt w =
     (case ra of
        Inr u \<Rightarrow> (Inr True, w1)
      | Inl e \<Rightarrow>
          if attempt = maxRetries
          then (Inl (HttpsError ''internal'' ''Something is Wrong''),
                snd (rtdb_remove (RtdbRef ''usernames'' username) w1))
          else createUser_loop uid username userRecord createdTimestamp (attempt + 1) w1)"
  by (cases ra)
    (auto simp add: createUser_loop.simps [of uid username userRecord createdTimestamp attempt w]
        split: prod.splits)

lemma createUser_loop_history:
  "createUser_loop uid username userRecord createdTimestamp attempt w = (r, w') \<Longrightarrow>
   \<exists>evs. trace w' = trace w @ evs
     \<and> createUser_history uid username
          [(''created_at'', createdTimestamp), (''username'', Str username),
           (''email_address'', Str (email userRecord))] attempt evs r
     \<and> (evs \<noteq> [] \<longrightarrow> settled (last evs) w')"
proof (induction uid username userRecord createdTimestamp attempt w arbitrary: r w'
         rule: createUser_loop.induct)
  case (1 uid username userRecord createdTimestamp attempt w)
  let ?d = "[(''created_at'', createdTimestamp), (''username'', Str username),
           (''email_address'', Str (email userRecord))]"
  show ?case
  proof (cases "attempt \<le> maxRetries")
    case False
    with "1.prems" usl_over [of attempt uid username ?d] show ?thesis
      by (simp add: createUser_loop.simps [of uid username userRecord createdTimestamp attempt w])
  next
    case True
    obtain ra w1 where
      att: "createUser_attempt uid username userRecord createdTimestamp attempt w = (ra, w1)"
      by (cases "createUser_attempt uid username userRecord createdTimestamp attempt w")
    note step = createUser_loop_step [OF True att]
    from createUser_attempt_history [OF att]
    obtain evs where t: "trace w1 = trace w @ evs"
      and h: "createUser_attempt_history uid ?d attempt evs ra"
      and ne: "evs \<noteq> []" and st: "settled (last evs) w1" by blast
    show ?thesis
    proof (cases ra)
      case (Inr u)
      with step have "createUser_loop uid username userRecord createdTimestamp attempt w
                        = (Inr True, w1)" by simp
      with "1.prems" have "r = Inr True" "w' = w1" by simp_all
      with usl_created [OF True] h Inr t st show ?thesis by auto
    next
      case (Inl e)
      show ?thesis
      proof (cases "attempt = maxRetries")
        case last: True
        let ?rm = "rtdb_remove (RtdbRef ''usernames'' username) w1"
        obtain cleanup w2 where rm: "?rm = (cleanup, w2)" by (cases ?rm)
        with step Inl last
        have "createUser_loop uid username userRecord createdTimestamp attempt w =
                (Inl (HttpsError ''internal'' ''Something is Wrong''), w2)" by simp
        with "1.prems"
        have "r = Inl (HttpsError ''internal'' ''Something is Wrong'')" "w' = w2"
          by simp_all
        with usl_exhausted [OF last, of uid ?d evs e username cleanup] h Inl t
          rtdb_remove_trace [OF rm] rtdb_remove_settled [OF rm]
        show ?thesis by auto
      next
        case more: False
        with step Inl
        have "createUser_loop uid username userRecord createdTimestamp attempt w =
                createUser_loop uid username userRecord createdTimestamp (attempt + 1) w1"
          by simp
        with "1.prems"
        have rec: "createUser_loop uid username userRecord createdTimestamp (attempt + 1) w1
                     = (r, w')"
          by simp
        from "1.IH" [OF True att [symmetric] Inl more rec]
        obtain evs' where t': "trace w' = trace w1 @ evs'"
          and h': "createUser_history uid username ?d (attempt + 1) evs' r"
          and st': "evs' \<noteq> [] \<longrightarrow> settled (last evs') w'" by blast
        from more True have lt: "attempt < maxRetries" by simp
        have ne': "evs' \<noteq> []"
          using createUser_history_nonempty [OF h'] lt by simp
        from usl_retry [OF lt _ h'] h Inl t t' st' ne' show ?thesis by auto
      qed
    qed
  qed
qed

text \<open>What a Firestore transaction can answer.\<close>

lemma fs_runTransaction_cases:
  assumes "fs_runTransaction body w = (r, w')"
  obtains (failed) e where "r = Inl e" "trace w' = trace w @ [FsRunTransaction (Inl e)]"
  | (committed) ws and w1 :: world where "r = Inr ()"
      "body (\<lambda>p. store w1 p \<noteq> None) = Inr ws"
      "trace w' = trace w @ [FsRunTransaction (Inr (map (\<lambda>(p, d). (p, resolve (clock w1) d)) ws))]"
      "store w' = apply_writes (clock w1) ws (store w1)"
proof -
  obtain f w1 where n: "next_step w = (f, w1)" and t: "trace w1 = trace w"
    by (rule next_step_cases)
  show thesis
  proof (cases f)
    case (Some e)
    with assms n t failed show ?thesis
      by (auto simp: fs_runTransaction_def emit_def)
  next
    case None
    show ?thesis
    proof (cases "body (\<lambda>p. store w1 p \<noteq> None)")
      case (Inl e)
      with None assms n t failed show ?thesis
        by (auto simp: fs_runTransaction_def emit_def)
    next
      case (Inr ws)
      with None assms n t committed [of w1 ws] show ?thesis
        by (auto simp: fs_runTransaction_def emit_def)
    qed
  qed
qed

text \<open>Every run of one attempt of the Firestore transaction has one of the histories.\<close>

lemma createNewUserHandler_attempt_history:
  assumes "createNewUserHandler_attempt uid username userRecord attempt w = (r, w')"
  shows "\<exists>evs. trace w' = trace w @ evs
           \<and> createNewUserHandler_attempt_history uid username userRecord attempt evs r
           \<and> (evs \<noteq> [] \<longrightarrow> settled (last evs) w')"
proof -
  let ?pre = "(if attempt > 1 then sleep retryDelay w else (Inr (), w))"
  obtain r0 w1 where pre: "?pre = (r0, w1)"
    by (cases ?pre)
  then have r0: "r0 = Inr ()" and t1: "trace w1 = trace w @ delay attempt"
    by (auto simp: sleep_def emit_def delay_def split: if_splits)
  have s1: "delay attempt \<noteq> [] \<longrightarrow> settled (last (delay attempt)) w1"
    by (simp add: delay_def)
  show ?thesis
  proof (cases "getServerTimestamp w1")
    case (Inl e)
    then have "e = JsError None
               (Some ''Firestore FieldValue is not available. Ensure admin is initialized.'')"
      by (auto simp: getServerTimestamp_def split: if_splits)
    with assms pre r0 Inl have "r = Inl (JsError None
               (Some ''Firestore FieldValue is not available. Ensure admin is initialized.''))"
      "w' = w1"
      by (simp_all add: createNewUserHandler_attempt_def)
    with t1 s1 ha_no_timestamp [of uid username userRecord attempt] show ?thesis by auto
  next
    case (Inr timestamp)
    then have ts: "timestamp = ServerTimestamp"
      by (auto simp: getServerTimestamp_def split: if_splits)
    let ?body = "(\<lambda>transaction_get.
                    if transaction_get (FsDoc ''users'' uid)
                    then Inl (JsError None (Some ''User already exists''))
                    else if transaction_get (FsDoc ''usernames'' username)
                    then Inl (HttpsError ''already-exists''
                                (''username '' @ username @ '' already taken''))
                    else Inr [(FsDoc ''usernames'' username,
                                 [(''uid'', Str uid), (''created_at'', ServerTimestamp)]),
                              (FsDoc ''users'' uid,
                                 [(''created_at'', ServerTimestamp),
                                  (''username'', Str username),
                                  (''email_address'', Str (email userRecord))])])"
    obtain r2 w2 where tx: "fs_runTransaction ?body w1 = (r2, w2)"
      by (cases "fs_runTransaction ?body w1")
    with assms pre r0 Inr ts have rw: "r = r2" "w' = w2"
      by (simp_all add: createNewUserHandler_attempt_def)
    from tx show ?thesis
    proof (cases rule: fs_runTransaction_cases)
      case (failed e)
      with rw t1 ha_failed [of uid username userRecord attempt e] show ?thesis by auto
    next
      case (committed ws w0)
      from committed(2) have ws: "ws = [(FsDoc ''usernames'' username,
                                 [(''uid'', Str uid), (''created_at'', ServerTimestamp)]),
                              (FsDoc ''users'' uid,
                                 [(''created_at'', ServerTimestamp),
                                  (''username'', Str username),
                                  (''email_address'', Str (email userRecord))])]"
        by (auto split: if_splits)
      have st: "settled (FsRunTransaction (Inr (map (\<lambda>(p, d). (p, resolve (clock w0) d)) ws))) w2"
        using committed(4) by (simp add: ws apply_writes_def resolve_def)
      from committed(3) rw t1 st committed(1)
        ha_committed [of uid username userRecord attempt "clock w0"]
      show ?thesis by (auto simp: ws resolve_def)
    qed
  qed
qed

lemma createNewUserHandler_loop_step:
  "attempt \<le> maxRetries \<Longrightarrow>
   createNewUserHandler_attempt uid username userRecord attempt w = (ra, w1) \<Longrightarrow>
   createNewUserHandler_loop uid username userRecord attempt w =
     (case ra of
        Inr u \<Rightarrow> (Inr True, w1)
      | Inl e \<Rightarrow>
          if instanceof_HttpsError e then (Inl e, w1)
          else if attempt = maxRetries
          then (Inl (HttpsError ''internal'' ''Something is wrong''), w1)
          else createNewUserHandler_loop uid username userRecord (attempt + 1) w1)"
  by (cases ra)
    (auto simp add: createNewUserHandler_loop.simps [of uid username userRecord attempt w])

lemma createNewUserHandler_history_nonempty:
  "createNewUserHandler_history uid username userRecord attempt evs r \<Longrightarrow>
   1 < attempt \<Longrightarrow> attempt \<le> maxRetries \<Longrightarrow> evs \<noteq> []"
  by (cases rule: createNewUserHandler_history.cases)
     (auto elim!: createNewUserHandler_attempt_history.cases simp: delay_def)

lemma createNewUserHandler_loop_history:
  "createNewUserHandler_loop uid username userRecord attempt w = (r, w') \<Longrightarrow> 0 < attempt \<Longrightarrow>
   \<exists>evs. trace w' = trace w @ evs
     \<and> createNewUserHandler_history uid username userRecord attempt evs r
     \<and> (evs \<noteq> [] \<longrightarrow> settled (last evs) w')"
proof (induction uid username userRecord attempt w arbitrary: r w'
         rule: createNewUserHandler_loop.induct)
  case (1 uid username userRecord attempt w)
  show ?case
  proof (cases "attempt \<le> maxRetries")
    case False
    with "1.prems" hl_over [of attempt uid username userRecord] show ?thesis
      by (simp add: createNewUserHandler_loop.simps [of uid username userRecord attempt w])
  next
    case True
    obtain ra w1 where
      att: "createNewUserHandler_attempt uid username userRecord attempt w = (ra, w1)"
      by (cases "createNewUserHandler_attempt uid username userRecord attempt w")
    note step = createNewUserHandler_loop_step [OF True att]
    from createNewUserHandler_attempt_history [OF att]
    obtain evs where t: "trace w1 = trace w @ evs"
      and h: "createNewUserHandler_attempt_history uid username userRecord attempt evs ra"
      and st: "evs \<noteq> [] \<longrightarrow> settled (last evs) w1" by blast
    show ?thesis
    proof (cases ra)
      case (Inr u)
      with step have "createNewUserHandler_loop uid username userRecord attempt w
                        = (Inr True, w1)" by simp
      with "1.prems" have "r = Inr True" "w' = w1" by simp_all
      with hl_created [OF True] h Inr t st show ?thesis by auto
    next
      case (Inl e)
      show ?thesis
      proof (cases "instanceof_HttpsError e")
        case https: True
        with step Inl
        have "createNewUserHandler_loop uid username userRecord attempt w = (Inl e, w1)"
          by simp
        with "1.prems" have "r = Inl e" "w' = w1" by simp_all
        with hl_rethrown [OF True _ https] h Inl t st show ?thesis by auto
      next
        case False
        show ?thesis
        proof (cases "attempt = maxRetries")
          case last: True
          with step Inl False
          have "createNewUserHandler_loop uid username userRecord attempt w =
                  (Inl (HttpsError ''internal'' ''Something is wrong''), w1)" by simp
          with "1.prems"
          have "r = Inl (HttpsError ''internal'' ''Something is wrong'')" "w' = w1"
            by simp_all
          with hl_exhausted [OF last _ False] h Inl t st show ?thesis by auto
        next
          case more: False
          with step Inl False
          have "createNewUserHandler_loop uid username userRecord attempt w =
                  createNewUserHandler_loop uid username userRecord (attempt + 1) w1" by simp
          with "1.prems"
          have rec: "createNewUserHandler_loop uid username userRecord (attempt + 1) w1
                       = (r, w')"
            by simp
          have pos: "0 < attempt + 1" by simp
          from "1.IH" [OF True att [symmetric] Inl False more rec pos]
          obtain evs' where t': "trace w' = trace w1 @ evs'"
            and h': "createNewUserHandler_history uid username userRecord (attempt + 1) evs' r"
            and st': "evs' \<noteq> [] \<longrightarrow> settled (last evs') w'" by blast
          from more True have lt: "attempt < maxRetries" by simp
          have ne': "evs' \<noteq> []"
            using createNewUserHandler_history_nonempty [OF h'] lt "1.prems"(2) by simp
          from hl_retry [OF lt _ False h'] h Inl t t' st' ne' show ?thesis by auto
        qed
      qed
    qed
  qed
qed

lemma getUser_trace: "getUser u w = (r, w') \<Longrightarrow> trace w' = trace w @ [AuthGetUser u r]"
  using trace_next_step [of w]
  by (auto simp: getUser_def emit_def Let_def split: prod.splits option.splits)

lemma createUsername_attempt_history_no_user:
  "createUsername_attempt_history username attempt evs r \<Longrightarrow>
   \<forall>ev \<in> set evs. \<not> is_user_transaction ev"
  by (cases rule: createUsername_attempt_history.cases) (auto simp: recheck_def)

lemma createUsername_history_no_user:
  "createUsername_history username attempt evs r \<Longrightarrow>
   \<forall>ev \<in> set evs. \<not> is_user_transaction ev"
  by (induction rule: createUsername_history.induct)
     (auto dest: createUsername_attempt_history_no_user)

lemma createUsername_history_timestamp:
  "createUsername_history username attempt evs (Inr (Some ts)) \<Longrightarrow> \<exists>t. ts = Num t"
proof (induction username attempt evs "Inr (Some ts) :: js_error + fval option"
         rule: createUsername_history.induct)
  case (ul_created attempt username evs)
  then show ?case by (auto elim: createUsername_attempt_history.cases)
next
  case (ul_retry attempt username evs e evs')
  then show ?case by simp
qed

lemma createUser_history_first_attempt:
  "createUser_history uid username d 1 evs r \<Longrightarrow>
   r = Inr True \<or> r = Inl (HttpsError ''internal'' ''Something is Wrong'')"
proof -
  have "createUser_history uid username d a evs r \<Longrightarrow> a \<le> maxRetries \<Longrightarrow>
        r = Inr True \<or> r = Inl (HttpsError ''internal'' ''Something is Wrong'')" for a
    by (induction rule: createUser_history.induct) auto
  then show "createUser_history uid username d 1 evs r \<Longrightarrow>
   r = Inr True \<or> r = Inl (HttpsError ''internal'' ''Something is Wrong'')"
    by (simp add: maxRetries_def)
qed

text \<open>
  Every run of createNewUser on the Realtime Database either reaches the two loops after
  the three checks, with the histories of the loops one after the other, or it throws
  before any transaction on a user record.
\<close>

lemma createNewUser_history:
  assumes "createNewUser data context w = (r, w')"
  shows "(\<exists>uid userRecord raw t evs1 evs2 r2.
            auth_uid context = Some uid \<and> username_string data = Some raw
            \<and> regex_match usernameRegex (trim raw)
            \<and> trace w' = trace w @
                 [AuthGetUser uid (Inr userRecord),
                  RtdbOnce (RtdbRef ''users'' uid) (Inr False),
                  RtdbOnce (RtdbRef ''usernames'' (trim raw)) (Inr False)] @ evs1 @ evs2
            \<and> createUsername_history (trim raw) 1 evs1 (Inr (Some (Num t)))
            \<and> createUser_history uid (trim raw)
                 [(''created_at'', Num t), (''username'', Str (trim raw)),
                  (''email_address'', Str (email userRecord))] 1 evs2 r2
            \<and> evs2 \<noteq> [] \<and> settled (last evs2) w'
            \<and> r = (case r2 of
                     Inl e \<Rightarrow> Inl e
                   | Inr b \<Rightarrow> Inr \<lparr>resp_success = True, resp_username = Some (trim raw),
                                    resp_uid = Some uid\<rparr>))
       \<or> (\<exists>evs e. trace w' = trace w @ evs \<and> r = Inl e
             \<and> (\<forall>ev \<in> set evs. \<not> is_user_transaction ev))"
proof (cases "auth_uid context")
  case None
  with assms show ?thesis
    by (auto simp: createNewUser_def createNewUser_try_def top_level_catch_simps)
next
  case (Some uid)
  obtain r1 w1 where g: "getUser uid w = (r1, w1)" by (cases "getUser uid w")
  note t1 = getUser_trace [OF g]
  have early: ?thesis
    if "createNewUser data context w = (Inl e, w1)" for e
    using that assms t1 by auto
  show ?thesis
  proof (cases r1)
    case (Inl e)
    with Some g show ?thesis
      by (intro early) (simp add: createNewUser_def createNewUser_try_def top_level_catch_simps)
  next
    case (Inr userRecord)
    note base = Some g Inr
    show ?thesis
    proof (cases "emailVerified userRecord")
      case False
      with base show ?thesis
        by (intro early)
           (simp add: createNewUser_def createNewUser_try_def top_level_catch_simps)
    next
      case verified: True
      show ?thesis
      proof (cases "username_string data")
        case None
        with base verified show ?thesis
          by (intro early)
             (simp add: createNewUser_def createNewUser_try_def top_level_catch_simps)
      next
        case raw: (Some raw)
        show ?thesis
        proof (cases "regex_match usernameRegex (trim raw)")
          case False
          with base verified raw show ?thesis
            by (intro early)
               (simp add: createNewUser_def createNewUser_try_def top_level_catch_simps)
        next
          case valid: True
          let ?u = "trim raw"
          obtain r2 w2 where o1: "rtdb_once (RtdbRef ''users'' uid) w1 = (r2, w2)"
            by (cases "rtdb_once (RtdbRef ''users'' uid) w1")
          note t2 = rtdb_once_trace [OF o1]
          obtain r3 w3 where o2: "rtdb_once (RtdbRef ''usernames'' ?u) w2 = (r3, w3)"
            by (cases "rtdb_once (RtdbRef ''usernames'' ?u) w2")
          note t3 = rtdb_once_trace [OF o2]
          obtain r4 w4 where l1: "createUsername_loop ?u 1 w3 = (r4, w4)"
            by (cases "createUsername_loop ?u 1 w3")
          from createUsername_loop_history [OF l1]
          obtain evs1 where t4: "trace w4 = trace w3 @ evs1"
            and h1: "createUsername_history ?u 1 evs1 r4" by blast
          note nu1 = createUsername_history_no_user [OF h1]
          have unfolded: "createNewUser data context w = top_level_catch
            (if r2 = Inr False
             then (if r3 = Inr False
                   then (case r4 of
                           Inl error \<Rightarrow> (Inl error, w4)
                         | Inr None \<Rightarrow> (Inl (HttpsError ''internal'' ''Something is wrong''), w4)
                         | Inr (Some createdTimestamp) \<Rightarrow>
                             (case createUser_loop uid ?u userRecord createdTimestamp 1 w4 of
                                (Inl error, w5) \<Rightarrow> (Inl error, w5)
                              | (Inr False, w5) \<Rightarrow>
                                  (case rtdb_remove (RtdbRef ''usernames'' ?u) w5 of
                                     (cleanup, w6) \<Rightarrow>
                                       (Inl (HttpsError ''internal'' ''Something is Wrong''), w6))
                              | (Inr True, w5) \<Rightarrow>
                                  (Inr \<lparr>resp_success = True, resp_username = Some ?u,
                                        resp_uid = Some uid\<rparr>, w5)))
                   else (case r3 of Inl error \<Rightarrow> (Inl error, w3)
                         | Inr b \<Rightarrow> (Inl (HttpsError ''already-exists''
                                              ''username already taken''), w3)))
             else (case r2 of Inl error \<Rightarrow> (Inl error, w2)
                   | Inr b \<Rightarrow> (Inl (HttpsError ''already-exists'' ''user already exists''), w2)))"
            using base verified raw valid o1 o2 l1
            by (auto simp: createNewUser_def createNewUser_try_def Let_def
                  split: sum.splits)
          have stop: ?thesis
            if "createNewUser data context w = top_level_catch (Inl e, wx)"
              and "trace wx = trace w @ evs" and "\<forall>ev \<in> set evs. \<not> is_user_transaction ev"
            for e wx evs
          proof -
            from that(1) assms obtain e' where "r = Inl e'" "w' = wx"
              by (cases e) (auto simp: top_level_catch_simps)
            with that(2,3) show ?thesis by blast
          qed
          show ?thesis
          proof (cases "r2 = Inr False")
            case False
            then obtain e where
              "createNewUser data context w = top_level_catch (Inl e, w2)"
              using unfolded by (cases r2) auto
            then show ?thesis
              by (rule stop [where evs = "[AuthGetUser uid r1, RtdbOnce (RtdbRef ''users'' uid) r2]"])
                 (use t1 t2 in auto)
          next
            case u_free: True
            show ?thesis
            proof (cases "r3 = Inr False")
              case False
              then obtain e where
                "createNewUser data context w = top_level_catch (Inl e, w3)"
                using unfolded u_free by (cases r3) auto
              then show ?thesis
                by (rule stop [where evs = "[AuthGetUser uid r1, RtdbOnce (RtdbRef ''users'' uid) r2,
                                             RtdbOnce (RtdbRef ''usernames'' ?u) r3]"])
                   (use t1 t2 t3 in auto)
            next
              case n_free: True
              have pre: "trace w3 = trace w @
                 [AuthGetUser uid (Inr userRecord),
                  RtdbOnce (RtdbRef ''users'' uid) (Inr False),
                  RtdbOnce (RtdbRef ''usernames'' ?u) (Inr False)]"
                using t1 t2 t3 u_free n_free Inr by simp
              show ?thesis
              proof (cases r4)
                case (Inl e)
                then have "createNewUser data context w = top_level_catch (Inl e, w4)"
                  using unfolded u_free n_free by simp
                then show ?thesis
                  by (rule stop [where evs = "[AuthGetUser uid (Inr userRecord),
                                   RtdbOnce (RtdbRef ''users'' uid) (Inr False),
                                   RtdbOnce (RtdbRef ''usernames'' ?u) (Inr False)] @ evs1"])
                     (use pre t4 nu1 in auto)
              next
                case (Inr created)
                show ?thesis
                proof (cases created)
                  case None
                  with Inr
                  have "createNewUser data context w = top_level_catch
                          (Inl (HttpsError ''internal'' ''Something is wrong''), w4)"
                    using unfolded u_free n_free by simp
                  then show ?thesis
                    by (rule stop [where evs = "[AuthGetUser uid (Inr userRecord),
                                   RtdbOnce (RtdbRef ''users'' uid) (Inr False),
                                   RtdbOnce (RtdbRef ''usernames'' ?u) (Inr False)] @ evs1"])
                       (use pre t4 nu1 in auto)
                next
                  case (Some ts)
                  with h1 Inr createUsername_history_timestamp [of ?u 1 evs1 ts]
                  obtain t where ts: "ts = Num t" by auto
                  obtain r5 w5 where
                    l2: "createUser_loop uid ?u userRecord (Num t) 1 w4 = (r5, w5)"
                    by (cases "createUser_loop uid ?u userRecord (Num t) 1 w4")
                  from createUser_loop_history [OF l2]
                  obtain evs2 where t5: "trace w5 = trace w4 @ evs2"
                    and h2: "createUser_history uid ?u
                               [(''created_at'', Num t), (''username'', Str ?u),
                                (''email_address'', Str (email userRecord))] 1 evs2 r5"
                    and st: "evs2 \<noteq> [] \<longrightarrow> settled (last evs2) w5" by blast
                  have ne: "evs2 \<noteq> []"
                    using createUser_history_nonempty [OF h2] by (simp add: maxRetries_def)
                  from createUser_history_first_attempt [OF h2]
                  have "createNewUser data context w =
                          (case r5 of
                             Inl e \<Rightarrow> Inl e
                           | Inr b \<Rightarrow> Inr \<lparr>resp_success = True, resp_username = Some ?u,
                                            resp_uid = Some uid\<rparr>, w5)"
                    using unfolded u_free n_free Inr Some ts l2
                    by (auto simp: top_level_catch_simps)
                  with assms have "r = (case r5 of
                             Inl e \<Rightarrow> Inl e
                           | Inr b \<Rightarrow> Inr \<lparr>resp_success = True, resp_username = Some ?u,
                                            resp_uid = Some uid\<rparr>)" "w' = w5"
                    by simp_all
                  with base(1) raw valid pre t4 t5 h1 h2 ne st Inr Some ts
                  show ?thesis
                    by - (rule disjI1, rule exI [of _ uid], rule exI [of _ userRecord],
                          rule exI [of _ raw], rule exI [of _ t], rule exI [of _ evs1],
                          rule exI [of _ evs2], rule exI [of _ r5], simp)
                qed
              qed
            qed
          qed
        qed
      qed
    qed
  qed
qed

lemma fs_get_trace: "fs_get p w = (r, w') \<Longrightarrow> trace w' = trace w @ [FsGet p r]"
  using trace_next_step [of w]
  by (auto simp: fs_get_def emit_def Let_def split: prod.splits option.splits)

lemma fs_delete_trace: "fs_delete p w = (r, w') \<Longrightarrow> trace w' = trace w @ [FsDelete p r]"
  using trace_next_step [of w]
  by (auto simp: fs_delete_def emit_def Let_def split: prod.splits option.splits)

lemma sleep_trace: "sleep ms w = (r, w') \<Longrightarrow> r = Inr () \<and> trace w' = trace w @ [Sleep ms]"
  by (auto simp: sleep_def emit_def)

lemma createNewUserHandler_history_first_attempt:
  "createNewUserHandler_history uid username userRecord 1 evs r \<Longrightarrow>
   r = Inr True \<or> (\<exists>e. r = Inl e \<and> instanceof_HttpsError e)"
proof -
  have "createNewUserHandler_history uid username userRecord a evs r \<Longrightarrow> a \<le> maxRetries \<Longrightarrow>
        r = Inr True \<or> (\<exists>e. r = Inl e \<and> instanceof_HttpsError e)" for a
    by (induction rule: createNewUserHandler_history.induct) auto
  then show "createNewUserHandler_history uid username userRecord 1 evs r \<Longrightarrow>
   r = Inr True \<or> (\<exists>e. r = Inl e \<and> instanceof_HttpsError e)"
    by (simp add: maxRetries_def)
qed

text \<open>
  Every run of createNewUser on Firestore either reaches the transaction loop after the
  checks, or it throws before any transaction and any sleep.
\<close>

lemma createNewUserHandler_history:
  assumes "createNewUserHandler data context w = (r, w')"
  shows "(\<exists>uid userRecord raw evs r2.
            app context \<and> auth_uid context = Some uid \<and> username_string data = Some raw
            \<and> trace w' = trace w @
                 [AuthGetUser uid (Inr userRecord),
                  FsGet (FsDoc ''users'' uid) (Inr False)] @ evs
            \<and> createNewUserHandler_history uid (trim raw) userRecord 1 evs r2
            \<and> (evs \<noteq> [] \<longrightarrow> settled (last evs) w')
            \<and> r = (case r2 of
                     Inl e \<Rightarrow> Inl e
                   | Inr b \<Rightarrow> Inr \<lparr>resp_success = True, resp_username = None,
                                    resp_uid = None\<rparr>))
       \<or> (\<exists>evs e. trace w' = trace w @ evs \<and> r = Inl e
             \<and> (\<forall>ev \<in> set evs. \<not> is_run_transaction ev) \<and> sleeps evs = [])"
proof (cases "app context")
  case False
  with assms show ?thesis
    by (auto simp: createNewUserHandler_def createNewUserHandler_try_def top_level_catch_simps)
next
  case app: True
  show ?thesis
  proof (cases "auth_uid context")
    case None
    with assms app show ?thesis
      by (auto simp: createNewUserHandler_def createNewUserHandler_try_def
            top_level_catch_simps)
  next
    case (Some uid)
    obtain r1 w1 where g: "getUser uid w = (r1, w1)" by (cases "getUser uid w")
    note t1 = getUser_trace [OF g]
    have early: ?thesis
      if "createNewUserHandler data context w = (Inl e, w1)" for e
      using that assms t1 by auto
    show ?thesis
    proof (cases r1)
      case (Inl e)
      with app Some g show ?thesis
        by (intro early)
           (simp add: createNewUserHandler_def createNewUserHandler_try_def
              top_level_catch_simps)
    next
      case (Inr userRecord)
      note base = app Some g Inr
      show ?thesis
      proof (cases "emailVerified userRecord")
        case False
        with base show ?thesis
          by (intro early)
             (simp add: createNewUserHandler_def createNewUserHandler_try_def
                top_level_catch_simps)
      next
        case verified: True
        show ?thesis
        proof (cases "username_string data")
          case None
          with base verified show ?thesis
            by (intro early)
               (simp add: createNewUserHandler_def createNewUserHandler_try_def
                  top_level_catch_simps)
        next
          case raw: (Some raw)
          show ?thesis
          proof (cases "regex_match usernameRegex (trim raw)")
            case False
            with base verified raw show ?thesis
              by (intro early)
                 (simp add: createNewUserHandler_def createNewUserHandler_try_def
                    top_level_catch_simps)
          next
            case valid: True
            let ?u = "trim raw"
            obtain r2 w2 where o1: "fs_get (FsDoc ''users'' uid) w1 = (r2, w2)"
              by (cases "fs_get (FsDoc ''users'' uid) w1")
            note t2 = fs_get_trace [OF o1]
            obtain r3 w3 where l: "createNewUserHandler_loop uid ?u userRecord 1 w2 = (r3, w3)"
              by (cases "createNewUserHandler_loop uid ?u userRecord 1 w2")
            have one: "0 < (1::nat)" by simp
            from createNewUserHandler_loop_history [OF l one]
            obtain evs where t3: "trace w3 = trace w2 @ evs"
              and h: "createNewUserHandler_history uid ?u userRecord 1 evs r3"
              and st: "evs \<noteq> [] \<longrightarrow> settled (last evs) w3" by blast
            have unfolded: "createNewUserHandler data context w = top_level_catch
              (if r2 = Inr False
               then (case r3 of
                       Inl error \<Rightarrow> (Inl error, w3)
                     | Inr False \<Rightarrow> (Inl (HttpsError ''internal'' ''Something is wrong''), w3)
                     | Inr True \<Rightarrow>
                         (Inr \<lparr>resp_success = True, resp_username = None, resp_uid = None\<rparr>,
                          w3))
               else (case r2 of Inl error \<Rightarrow> (Inl error, w2)
                     | Inr b \<Rightarrow> (Inl (HttpsError ''already-exists'' ''user already exists''),
                                  w2)))"
              using base verified raw valid o1 l
              by (auto simp: createNewUserHandler_def createNewUserHandler_try_def Let_def
                    split: sum.splits)
            show ?thesis
            proof (cases "r2 = Inr False")
              case False
              then obtain e where
                "createNewUserHandler data context w = top_level_catch (Inl e, w2)"
                using unfolded by (cases r2) auto
              with assms obtain e' where "r = Inl e'" "w' = w2"
                by (cases e) (auto simp: top_level_catch_simps)
              with t1 t2 show ?thesis by auto
            next
              case u_free: True
              from createNewUserHandler_history_first_attempt [OF h]
              have "createNewUserHandler data context w =
                      (case r3 of
                         Inl e \<Rightarrow> Inl e
                       | Inr b \<Rightarrow> Inr \<lparr>resp_success = True, resp_username = None,
                                        resp_uid = None\<rparr>, w3)"
                using unfolded u_free
                by (auto simp: top_level_catch_def)
              with assms have "r = (case r3 of
                         Inl e \<Rightarrow> Inl e
                       | Inr b \<Rightarrow> Inr \<lparr>resp_success = True, resp_username = None,
                                        resp_uid = None\<rparr>)" "w' = w3"
                by simp_all
              with base(1,2) raw t1 t2 t3 h st u_free Inr
              show ?thesis
                by - (rule disjI1, rule exI [of _ uid], rule exI [of _ userRecord],
                      rule exI [of _ raw], rule exI [of _ evs], rule exI [of _ r3], simp)
            qed
          qed
        qed
      qed
    qed
  qed
qed

lemmas world_eval =
  next_step_def emit_def Let_def quiet_world_def waiting_world_def ok_step_def failing_def
  caller1_def caller2_def lockedError_def otherError_def new_events_def

lemmas handler_eval =
  createNewUser_def createNewUser_try_def createNewUserHandler_def createNewUserHandler_try_def
  top_level_catch_def auth_uid_def getUser_def rtdb_once_def rtdb_transaction_def
  rtdb_remove_def fs_get_def fs_runTransaction_def sleep_def getServerTimestamp_def
  createUsername_loop.simps createUsername_attempt_def createUser_loop.simps
  createUser_attempt_def createNewUserHandler_loop.simps createNewUserHandler_attempt_def
  maxRetries_def retryDelay_def trim_def is_js_whitespace_def usernameRegex_def in_class_def
  resolve_def field_def apply_writes_def

lemma transaction_writes_append [simp]:
  "transaction_writes (xs @ ys) = transaction_writes xs @ transaction_writes ys"
  by (simp add: transaction_writes_def)

lemma transaction_writes_Nil [simp]: "transaction_writes [] = []"
  by (simp add: transaction_writes_def)

lemma transaction_writes_Cons [simp]:
  "transaction_writes (ev # evs) = event_writes ev @ transaction_writes evs"
  by (simp add: transaction_writes_def)

lemma createUsername_attempt_failed_writes:
  "createUsername_attempt_history username attempt evs (Inl e) \<Longrightarrow> transaction_writes evs = []"
  by (cases rule: createUsername_attempt_history.cases) (auto simp: recheck_def)

lemma createUsername_history_writes:
  "createUsername_history username attempt evs (Inr (Some (Num t))) \<Longrightarrow>
   \<exists>d. transaction_writes evs = [(RtdbRef ''usernames'' username, d)]
        \<and> field d ''created_at'' = Num t"
proof (induction username attempt evs "Inr (Some (Num t)) :: js_error + fval option"
         rule: createUsername_history.induct)
  case (ul_created attempt username evs)
  then show ?case
    by (auto elim!: createUsername_attempt_history.cases simp: recheck_def)
next
  case (ul_retry attempt username evs e evs')
  then show ?case
    by (auto dest: createUsername_attempt_failed_writes)
qed

lemma createUser_attempt_failed_writes:
  "createUser_attempt_history uid d attempt evs (Inl e) \<Longrightarrow> transaction_writes evs = []"
  by (cases rule: createUser_attempt_history.cases) (auto simp: delay_def)

lemma createUser_history_writes:
  "createUser_history uid username d attempt evs (Inr True) \<Longrightarrow>
   \<exists>res now. transaction_writes evs = [(RtdbRef ''users'' uid, resolve now d)]
        \<and> evs \<noteq> [] \<and> last evs = RtdbTransaction (RtdbRef ''users'' uid) (Inr res)
        \<and> committed res \<and> snapshot res = Some (resolve now d)"
proof (induction uid username d attempt evs "Inr True :: js_error + bool"
         rule: createUser_history.induct)
  case (usl_created attempt uid d evs u username)
  then show ?case
    by (auto elim!: createUser_attempt_history.cases simp: delay_def)
next
  case (usl_retry attempt uid d evs e username evs')
  then show ?case
    by (auto dest: createUser_attempt_failed_writes)
qed simp_all

lemma createNewUserHandler_attempt_failed_writes:
  "createNewUserHandler_attempt_history uid username userRecord attempt evs (Inl e) \<Longrightarrow>
   transaction_writes evs = []"
  by (cases rule: createNewUserHandler_attempt_history.cases) (auto simp: delay_def)

lemma createNewUserHandler_history_writes:
  "createNewUserHandler_history uid username userRecord attempt evs (Inr True) \<Longrightarrow>
   \<exists>now. transaction_writes evs =
            [(FsDoc ''usernames'' username, [(''uid'', Str uid), (''created_at'', Num now)]),
             (FsDoc ''users'' uid,
                [(''created_at'', Num now), (''username'', Str username),
                 (''email_address'', Str (email userRecord))])]
        \<and> evs \<noteq> [] \<and> last evs = FsRunTransaction (Inr (transaction_writes evs))"
proof (induction uid username userRecord attempt evs "Inr True :: js_error + bool"
         rule: createNewUserHandler_history.induct)
  case (hl_created attempt uid username userRecord evs u)
  then show ?case
    by (auto elim!: createNewUserHandler_attempt_history.cases simp: delay_def)
next
  case (hl_retry attempt uid username userRecord evs e evs')
  then show ?case
    by (auto dest: createNewUserHandler_attempt_failed_writes)
qed simp_all

lemma list_ex_upt: "list_ex P [lo ..< Suc hi] \<longleftrightarrow> (\<exists>n. lo \<le> n \<and> n \<le> hi \<and> P n)"
  by (auto simp: list_ex_iff)

lemma regex_match_class:
  "regex_match (Class ranges lo hi # items) s \<longleftrightarrow>
     (\<exists>n. lo \<le> n \<and> n \<le> hi \<and> n \<le> length s \<and> list_all (in_class ranges) (take n s)
          \<and> regex_match items (drop n s))"
  unfolding regex_match.simps list_ex_upt ..

lemma regex_match_last_class:
  "regex_match [Class ranges lo hi] s \<longleftrightarrow>
     lo \<le> length s \<and> length s \<le> hi \<and> list_all (in_class ranges) s"
proof
  assume "regex_match [Class ranges lo hi] s"
  then obtain n where n: "lo \<le> n" "n \<le> hi" "n \<le> length s"
    "list_all (in_class ranges) (take n s)" "drop n s = []"
    unfolding regex_match_class by auto
  from n(3,5) have "n = length s" by simp
  with n show "lo \<le> length s \<and> length s \<le> hi \<and> list_all (in_class ranges) s" by simp
next
  assume a: "lo \<le> length s \<and> length s \<le> hi \<and> list_all (in_class ranges) s"
  show "regex_match [Class ranges lo hi] s"
    unfolding regex_match_class
    by (rule exI [of _ "length s"]) (use a in simp)
qed

text \<open>The regular expression of the code says what the documented rules say.\<close>

lemma usernameRegex_rules: "regex_match usernameRegex s \<longleftrightarrow> username_rules s"
proof (cases s)
  case Nil
  then show ?thesis
    unfolding usernameRegex_def regex_match_class
    by (simp add: username_rules_def)
next
  case (Cons c cs)
  have one: "(\<exists>n\<ge>Suc 0. n \<le> Suc 0 \<and> P n) \<longleftrightarrow> P (Suc 0)" for P
    by (auto simp: le_Suc_eq)
  have "regex_match usernameRegex (c # cs) \<longleftrightarrow>
          in_class [(CHR ''a'', CHR ''z'')] c \<and>
          regex_match [Class [(CHR ''a'', CHR ''z''), (CHR ''0'', CHR ''9''),
                              (CHR ''_'', CHR ''_'')] 7 14] cs"
    unfolding usernameRegex_def
    by (subst regex_match_class) (simp add: one del: regex_match.simps)
  also have "\<dots> \<longleftrightarrow> username_rules (c # cs)"
    unfolding regex_match_last_class
    by (auto simp: username_rules_def in_class_def lowercase_letter_def decimal_digit_def
          list_all_iff)
  finally show ?thesis using Cons by simp
qed

lemma getUser_store: "store (snd (getUser u w)) = store (snd (next_step w))"
  by (cases "next_step w") (simp add: getUser_def emit_def Let_def)

lemma fs_set_trace: "fs_set p d w = (r, w') \<Longrightarrow> trace w' = trace w @ [FsSet p d r]"
  using trace_next_step [of w]
  by (auto simp: fs_set_def emit_def Let_def split: prod.splits option.splits)

lemma validateAuthAndEmail_trace:
  assumes "validateAuthAndEmail context fn w = (r, w1)"
  shows "trace w1 = trace w \<or> (\<exists>uid r'. trace w1 = trace w @ [AuthGetUser uid r'])"
proof (cases "app context \<and> auth_uid context \<noteq> None")
  case False
  with assms show ?thesis
    by (auto simp: validateAuthAndEmail_def split: if_splits option.splits)
next
  case True
  then obtain uid where u: "auth_uid context = Some uid" by auto
  obtain r' w' where g: "getUser uid w = (r', w')" by (cases "getUser uid w")
  from assms True u g have "w1 = w'"
    by (cases r') (auto simp: validateAuthAndEmail_def split: if_splits)
  with getUser_trace [OF g] show ?thesis by blast
qed

lemma quickMatchHandler_calls:
  "list_all (\<lambda>ev. \<not> users_keyspace_call ev)
     (new_events w (snd (quickMatchHandler data context w)))"
proof -
  obtain r1 w1 where v: "validateAuthAndEmail context ''quickMatch'' w = (r1, w1)"
    by (cases "validateAuthAndEmail context ''quickMatch'' w")
  from validateAuthAndEmail_trace [OF v]
  obtain evs1 where t1: "trace w1 = trace w @ evs1"
    and c1: "list_all (\<lambda>ev. \<not> users_keyspace_call ev) evs1" by auto
  have closing: ?thesis if "snd (quickMatchHandler data context w) = w'"
    and "trace w' = trace w @ evs" and "list_all (\<lambda>ev. \<not> users_keyspace_call ev) evs" for w' evs
    using that new_events_append [of w' w evs] by simp
  show ?thesis
  proof (cases "\<exists>uid. r1 = Inr () \<and> context_auth_uid context = Inr uid")
    case False
    then have "snd (quickMatchHandler data context w) = w1"
      using v
      by (cases r1; cases "context_auth_uid context")
         (auto simp: quickMatchHandler_def quickMatchHandler_try_def top_level_catch_def
            split: sum.splits)
    then show ?thesis using t1 c1 by (rule closing)
  next
    case True
    then obtain uid where r1: "r1 = Inr ()" and u: "context_auth_uid context = Inr uid" by auto
    let ?presence = "RtdbRef ''presence'' uid"
    let ?queue = "FsDoc ''quick_matchmaking_queue'' uid"
    obtain r2 w2 where o: "rtdb_once ?presence w1 = (r2, w2)"
      by (cases "rtdb_once ?presence w1")
    note t2 = rtdb_once_trace [OF o]
    show ?thesis
    proof (cases "r2 = Inr True")
      case False
      then have "snd (quickMatchHandler data context w) = w2"
        using v r1 u o
        by (cases r2)
           (auto simp: quickMatchHandler_def quickMatchHandler_try_def top_level_catch_def
              split: sum.splits)
      then show ?thesis
        by (rule closing [where evs = "evs1 @ [RtdbOnce ?presence r2]"]) (use t1 t2 c1 in auto)
    next
      case online: True
      obtain r3 w3 where q: "fs_get ?queue w2 = (r3, w3)"
        by (cases "fs_get ?queue w2")
      note t3 = fs_get_trace [OF q]
      show ?thesis
      proof (cases "r3 = Inr False \<and> field_value_available w3")
        case False
        then have "snd (quickMatchHandler data context w) = w3"
          using v r1 u o online q
          by (cases r3)
             (auto simp: quickMatchHandler_def quickMatchHandler_try_def top_level_catch_def
                getServerTimestamp_def split: sum.splits)
        then show ?thesis
          by (rule closing [where evs = "evs1 @ [RtdbOnce ?presence r2, FsGet ?queue r3]"])
             (use t1 t2 t3 c1 in auto)
      next
        case True
        let ?doc = "[(''uid'', Str uid), (''created_at'', ServerTimestamp),
                     (''status'', Str ''waiting'')]"
        obtain r4 w4 where s: "fs_set ?queue ?doc w3 = (r4, w4)"
          by (cases "fs_set ?queue ?doc w3")
        note t4 = fs_set_trace [OF s]
        have "snd (quickMatchHandler data context w) = w4"
          using v r1 u o online q True s
          by (cases r4)
             (auto simp: quickMatchHandler_def quickMatchHandler_try_def top_level_catch_def
                getServerTimestamp_def split: sum.splits)
        then show ?thesis
          by (rule closing [where evs = "evs1 @ [RtdbOnce ?presence r2, FsGet ?queue r3,
                                              FsSet ?queue ?doc r4]"])
             (use t1 t2 t3 t4 c1 in auto)
      qed
    qed
  qed
qed

lemma quiet_rtdb_once:
  "schedule w = [] \<Longrightarrow>
   rtdb_once p w = (Inr (store w p \<noteq> None), w\<lparr>trace := trace w @ [RtdbOnce p (Inr (store w p \<noteq> None))]\<rparr>)"
  by (simp add: rtdb_once_def next_step_def emit_def Let_def)

lemma quiet_fs_get:
  "schedule w = [] \<Longrightarrow>
   fs_get p w = (Inr (store w p \<noteq> None), w\<lparr>trace := trace w @ [FsGet p (Inr (store w p \<noteq> None))]\<rparr>)"
  by (simp add: fs_get_def next_step_def emit_def Let_def)

lemma quiet_fs_set:
  "schedule w = [] \<Longrightarrow>
   fs_set p d w = (Inr (), w\<lparr>store := (store w)(p \<mapsto> resolve (clock w) d),
                             trace := trace w @ [FsSet p d (Inr ())]\<rparr>)"
  by (simp add: fs_set_def next_step_def emit_def Let_def)

lemma retry_delayed_simps [simp]:
  "retry_delayed []" "retry_delayed [ev]"
  "retry_delayed (ev # ev' # evs) \<longleftrightarrow> delay_follows ev ev' \<and> retry_delayed (ev' # evs)"
  by (simp_all add: retry_delayed_def)

lemma run_transactions_simps [simp]:
  "run_transactions [] = 0"
  "run_transactions (ev # evs) = (if is_run_transaction ev then 1 else 0) + run_transactions evs"
  "run_transactions (xs @ ys) = run_transactions xs + run_transactions ys"
  by (simp_all add: run_transactions_def)

lemma sleeps_append [simp]: "sleeps (xs @ ys) = sleeps xs @ sleeps ys"
  by (induction xs rule: sleeps.induct) simp_all







lemma quiet_getUser:
  "schedule w = [] \<Longrightarrow> accounts w u = Some userRecord \<Longrightarrow>
   getUser u w = (Inr userRecord, w\<lparr>trace := trace w @ [AuthGetUser u (Inr userRecord)]\<rparr>)"
  by (simp add: getUser_def next_step_def emit_def Let_def)

lemma retries_rechecked_simps [simp]:
  "retries_rechecked u []" "retries_rechecked u [ev]"
  "retries_rechecked u (ev # ev' # evs) \<longleftrightarrow>
     recheck_precedes u ev ev' \<and> retries_rechecked u (ev' # evs)"
  by (simp_all add: retries_rechecked_def)

lemma rtdb_transactions_simps [simp]:
  "rtdb_transactions [] = 0"
  "rtdb_transactions (ev # evs) = (if is_rtdb_transaction ev then 1 else 0) + rtdb_transactions evs"
  "rtdb_transactions (xs @ ys) = rtdb_transactions xs + rtdb_transactions ys"
  by (simp_all add: rtdb_transactions_def)

lemma attempts_made_simps [simp]:
  "attempts_made [] = 0"
  "attempts_made (ev # evs) = (if ends_attempt ev then 1 else 0) + attempts_made evs"
  "attempts_made (xs @ ys) = attempts_made xs + attempts_made ys"
  by (simp_all add: attempts_made_def)

text \<open>The events of one attempt of the username loop.\<close>

lemma createUsername_attempt_events:
  assumes "createUsername_attempt_history username attempt evs r"
  obtains (read) r' where "1 < attempt"
      "evs = [RtdbOnce (RtdbRef ''usernames'' username) r']" "r' \<noteq> Inr False"
      "case r' of Inl e \<Rightarrow> r = Inl e
       | Inr found \<Rightarrow> r = Inl (HttpsError ''already-exists'' ''username already taken'')"
  | (call) r' where
      "evs = recheck username attempt @ [RtdbTransaction (RtdbRef ''usernames'' username) r']"
      "case r' of Inl e \<Rightarrow> r = Inl e
       | Inr res \<Rightarrow> if committed res then \<exists>t. r = Inr (Num t)
                     else r = Inl (JsError None
                                    (Some ''Transaction aborted - username may have been taken''))"
  using assms
proof (cases rule: createUsername_attempt_history.cases)
  case ua_taken
  then show ?thesis using read [of "Inr True"] by simp
next
  case (ua_read_rejected e)
  then show ?thesis using read [of "Inl e"] by simp
next
  case (ua_rejected e)
  then show ?thesis using call [of "Inl e"] by simp
next
  case (ua_aborted res)
  then show ?thesis using call [of "Inr res"] by simp
next
  case (ua_committed res d t)
  then show ?thesis using call [of "Inr res"] by simp
qed

lemma createUsername_history_nonempty:
  "createUsername_history username attempt evs r \<Longrightarrow> attempt \<le> maxRetries \<Longrightarrow> evs \<noteq> []"
  by (cases rule: createUsername_history.cases)
     (auto elim!: createUsername_attempt_events)

lemma createUsername_history_shape:
  "createUsername_history username attempt evs r \<Longrightarrow> 0 < attempt \<Longrightarrow>
   retries_rechecked username evs
   \<and> (evs \<noteq> [] \<longrightarrow>
        (if 1 < attempt then \<exists>r'. hd evs = RtdbOnce (RtdbRef ''usernames'' username) r'
         else \<exists>r'. hd evs = RtdbTransaction (RtdbRef ''usernames'' username) r'))
   \<and> sleeps evs = []
   \<and> rtdb_transactions evs \<le> Suc maxRetries - attempt
   \<and> attempts_made evs \<le> Suc maxRetries - attempt"
proof (induction rule: createUsername_history.induct)
  case (ul_over attempt username)
  then show ?case by simp
next
  case (ul_created attempt username evs createdTimestamp)
  from ul_created(2) show ?case
    by (cases rule: createUsername_attempt_events)
       (use ul_created(1) in \<open>auto simp: recheck_def split: sum.splits\<close>)
next
  case (ul_rethrown attempt username evs e)
  from ul_rethrown(2) show ?case
    by (cases rule: createUsername_attempt_events)
       (use ul_rethrown(1) in \<open>auto simp: recheck_def split: sum.splits\<close>)
next
  case (ul_exhausted attempt username evs e)
  from ul_exhausted(2) show ?case
    by (cases rule: createUsername_attempt_events)
       (use ul_exhausted(1) in \<open>auto simp: recheck_def split: sum.splits\<close>)
next
  case (ul_retry attempt username evs e evs' r)
  from ul_retry.hyps(1) have a: "attempt + 1 \<le> maxRetries" by simp
  from createUsername_history_nonempty [OF ul_retry.hyps(4) a]
  have ne: "evs' \<noteq> []" .
  from ul_retry.IH ne ul_retry.prems obtain r0 where
    ih: "retries_rechecked username evs'"
      "hd evs' = RtdbOnce (RtdbRef ''usernames'' username) r0" "sleeps evs' = []"
      "rtdb_transactions evs' \<le> Suc maxRetries - (attempt + 1)"
      "attempts_made evs' \<le> Suc maxRetries - (attempt + 1)"
    by auto
  from ul_retry.hyps(2) show ?case
  proof (cases rule: createUsername_attempt_events)
    case (read r')
    with ih ne ul_retry.hyps(1) show ?thesis
      by (cases evs') (auto split: sum.splits)
  next
    case (call r')
    with ih ne ul_retry.hyps(1) show ?thesis
      by (cases evs') (auto simp: recheck_def split: sum.splits)
  qed
qed

lemma createUsername_history_taken:
  "createUsername_history username attempt evs r \<Longrightarrow>
   RtdbOnce (RtdbRef ''usernames'' username) (Inr True) \<in> set evs \<Longrightarrow>
   r = Inl (HttpsError ''already-exists'' ''username already taken'')
   \<and> last evs = RtdbOnce (RtdbRef ''usernames'' username) (Inr True)"
proof (induction rule: createUsername_history.induct)
  case (ul_over attempt username)
  then show ?case by simp
next
  case (ul_created attempt username evs createdTimestamp)
  from ul_created(2) show ?case
    by (cases rule: createUsername_attempt_events)
       (use ul_created.prems in \<open>auto simp: recheck_def split: sum.splits if_splits\<close>)
next
  case (ul_rethrown attempt username evs e)
  from ul_rethrown(2) show ?case
    by (cases rule: createUsername_attempt_events)
       (use ul_rethrown.prems in \<open>auto simp: recheck_def split: sum.splits if_splits\<close>)
next
  case (ul_exhausted attempt username evs e)
  from ul_exhausted(2) show ?case
    by (cases rule: createUsername_attempt_events)
       (use ul_exhausted.prems ul_exhausted.hyps(3) in
          \<open>auto simp: recheck_def split: sum.splits if_splits\<close>)
next
  case (ul_retry attempt username evs e evs' r)
  from ul_retry.hyps(1) have a: "attempt + 1 \<le> maxRetries" by simp
  from createUsername_history_nonempty [OF ul_retry.hyps(4) a]
  have ne: "evs' \<noteq> []" .
  have "RtdbOnce (RtdbRef ''usernames'' username) (Inr True) \<notin> set evs"
    using ul_retry.hyps(2)
    by (cases rule: createUsername_attempt_events)
       (use ul_retry.hyps(3) in \<open>auto simp: recheck_def split: sum.splits if_splits\<close>)
  with ul_retry.prems have "RtdbOnce (RtdbRef ''usernames'' username) (Inr True) \<in> set evs'"
    by simp
  with ul_retry.IH ne show ?case by simp
qed

lemma createUsername_history_exhausted:
  "createUsername_history username attempt evs r \<Longrightarrow> attempt \<le> maxRetries \<Longrightarrow>
   list_all inconclusive evs \<Longrightarrow>
   r = Inl (HttpsError ''internal'' ''Something is wrong'')
   \<and> attempts_made evs = Suc maxRetries - attempt"
proof (induction rule: createUsername_history.induct)
  case (ul_over attempt username)
  then show ?case by simp
next
  case (ul_created attempt username evs createdTimestamp)
  from ul_created(2) show ?case
    by (cases rule: createUsername_attempt_events)
       (use ul_created.prems in \<open>auto simp: recheck_def split: sum.splits if_splits\<close>)
next
  case (ul_rethrown attempt username evs e)
  from ul_rethrown(2) show ?case
    by (cases rule: createUsername_attempt_events)
       (use ul_rethrown.prems ul_rethrown.hyps(3) in
          \<open>auto simp: recheck_def split: sum.splits if_splits\<close>)
next
  case (ul_exhausted attempt username evs e)
  from ul_exhausted(2) show ?case
    by (cases rule: createUsername_attempt_events)
       (use ul_exhausted.prems ul_exhausted.hyps(1) in
          \<open>auto simp: recheck_def split: sum.splits if_splits\<close>)
next
  case (ul_retry attempt username evs e evs' r)
  from ul_retry.hyps(1) have a: "attempt + 1 \<le> maxRetries" by simp
  from ul_retry.prems have "list_all inconclusive evs'" by simp
  with ul_retry.IH a have ih: "r = Inl (HttpsError ''internal'' ''Something is wrong'')"
    "attempts_made evs' = Suc maxRetries - (attempt + 1)" by simp_all
  have "attempts_made evs = 1"
    using ul_retry.hyps(2)
    by (cases rule: createUsername_attempt_events)
       (use ul_retry.prems in \<open>auto simp: recheck_def split: sum.splits if_splits\<close>)
  with ih ul_retry.hyps(1) show ?case by simp
qed

lemma failed_user_transactions_simps [simp]:
  "failed_user_transactions [] = 0"
  "failed_user_transactions (ev # evs) =
     (if user_transaction_failed ev then 1 else 0) + failed_user_transactions evs"
  "failed_user_transactions (xs @ ys) = failed_user_transactions xs + failed_user_transactions ys"
  by (simp_all add: failed_user_transactions_def)

lemma no_user_transaction_failed:
  "\<forall>ev \<in> set evs. \<not> is_user_transaction ev \<Longrightarrow> failed_user_transactions evs = 0"
proof (induction evs)
  case Nil
  then show ?case by simp
next
  case (Cons ev evs)
  then have "\<not> is_user_transaction ev" by simp
  then have "\<not> user_transaction_failed ev"
    by (cases ev rule: user_transaction_failed.cases) auto
  with Cons show ?case by simp
qed

text \<open>The events of one attempt of the user loop.\<close>

lemma createUser_attempt_events:
  assumes "createUser_attempt_history uid d attempt evs r"
  obtains r' where "evs = delay attempt @ [RtdbTransaction (RtdbRef ''users'' uid) r']"
    "(\<exists>e. r = Inl e) \<longleftrightarrow> user_transaction_failed (RtdbTransaction (RtdbRef ''users'' uid) r')"
  using assms by (cases rule: createUser_attempt_history.cases) auto

lemma createUser_history_count:
  "createUser_history uid username d attempt evs r \<Longrightarrow> attempt \<le> maxRetries \<Longrightarrow>
   (case r of
      Inr b \<Rightarrow> failed_user_transactions evs < Suc maxRetries - attempt
    | Inl e \<Rightarrow> failed_user_transactions evs = Suc maxRetries - attempt
               \<and> e = HttpsError ''internal'' ''Something is Wrong''
               \<and> (\<exists>cleanup. last evs = RtdbRemove (RtdbRef ''usernames'' username) cleanup))"
proof (induction rule: createUser_history.induct)
  case (usl_over attempt uid username d)
  then show ?case by simp
next
  case (usl_created attempt uid d evs u username)
  from usl_created(2) show ?case
    by (rule createUser_attempt_events) (use usl_created(1) in \<open>auto simp: delay_def\<close>)
next
  case (usl_exhausted attempt uid d evs e username cleanup)
  from usl_exhausted(2) show ?case
    by (rule createUser_attempt_events) (use usl_exhausted(1) in \<open>auto simp: delay_def\<close>)
next
  case (usl_retry attempt uid d evs e username evs' r)
  from usl_retry.hyps(1) have a: "attempt + 1 \<le> maxRetries" by simp
  from createUser_history_nonempty [OF usl_retry.hyps(3) a] have ne: "evs' \<noteq> []" .
  have one: "failed_user_transactions evs = 1"
    using usl_retry.hyps(2) by (rule createUser_attempt_events) (auto simp: delay_def)
  from usl_retry.IH [OF a] one ne usl_retry.hyps(1) show ?case
    by (cases r) auto
qed

lemma quiet_rtdb_transaction_create:
  "schedule w = [] \<Longrightarrow> store w p = None \<Longrightarrow> update (clock w) None = Some d \<Longrightarrow>
   rtdb_transaction p update w =
     (Inr \<lparr>committed = True, snapshot = Some (resolve (clock w) d)\<rparr>,
      w\<lparr>store := (store w)(p \<mapsto> resolve (clock w) d),
        trace := trace w @ [RtdbTransaction p
                   (Inr \<lparr>committed = True, snapshot = Some (resolve (clock w) d)\<rparr>)]\<rparr>)"
  by (simp add: rtdb_transaction_def next_step_def emit_def Let_def)

text \<open>In a quiet environment an eligible caller gets a free username.\<close>

lemma createNewUser_quiet_success:
  assumes "auth_uid context = Some uid" and "accounts w uid = Some userRecord"
    and "emailVerified userRecord" and "data = Data (JString raw)"
    and "regex_match usernameRegex (trim raw)" and "schedule w = []"
    and "store w (RtdbRef ''users'' uid) = None"
    and "store w (RtdbRef ''usernames'' (trim raw)) = None"
  shows "fst (createNewUser data context w) =
           Inr \<lparr>resp_success = True, resp_username = Some (trim raw), resp_uid = Some uid\<rparr>"
  using assms
  by (simp add: createNewUser_def createNewUser_try_def top_level_catch_def
        quiet_getUser quiet_rtdb_once quiet_rtdb_transaction_create
        createUsername_loop.simps [of _ "Suc 0"] createUsername_attempt_def
        createUser_loop.simps [of _ _ _ _ "Suc 0"] createUser_attempt_def
        maxRetries_def field_def resolve_def Let_def)

lemma field_value_available_apply_mutation:
  "field_value_available (apply_mutation m w) = field_value_available w"
  by (cases m) simp_all

lemma field_value_available_fold_mutations:
  "field_value_available (fold apply_mutation ms w) = field_value_available w"
  by (induction ms arbitrary: w) (simp_all add: field_value_available_apply_mutation)

lemma field_value_available_next_step:
  "next_step w = (f, w') \<Longrightarrow> field_value_available w' = field_value_available w"
  by (auto simp: next_step_def field_value_available_fold_mutations split: list.splits)

lemma field_value_available_rtdb_once:
  "rtdb_once p w = (r, w') \<Longrightarrow> field_value_available w' = field_value_available w"
  by (auto simp: rtdb_once_def emit_def Let_def split: prod.splits
        dest: field_value_available_next_step)

lemma field_value_available_fs_get:
  "fs_get p w = (r, w') \<Longrightarrow> field_value_available w' = field_value_available w"
  by (auto simp: fs_get_def emit_def Let_def split: prod.splits
        dest: field_value_available_next_step)

text \<open>
  What quickMatch does after the gate under any schedule, told by what its calls
  answered and by the step of the environment that the write meets.
\<close>

lemma quickMatchHandler_outcomes:
  assumes v: "validateAuthAndEmail context ''quickMatch'' w = (Inr (), w1)"
    and u: "auth_uid context = Some uid"
    and fv: "field_value_available w1"
  shows "rtdb_once (RtdbRef ''presence'' uid) w1 = (Inr False, w2) \<Longrightarrow>
           quickMatchHandler data context w =
             (Inl (HttpsError ''failed-precondition'' ''User Not Online''), w2)"
    and "rtdb_once (RtdbRef ''presence'' uid) w1 = (Inr True, w2) \<Longrightarrow>
         fs_get (FsDoc ''quick_matchmaking_queue'' uid) w2 = (Inr True, w3) \<Longrightarrow>
           quickMatchHandler data context w =
             (Inl (HttpsError ''already-exists'' ''User Already Waiting to be matched''), w3)"
    and "rtdb_once (RtdbRef ''presence'' uid) w1 = (Inr True, w2) \<Longrightarrow>
         fs_get (FsDoc ''quick_matchmaking_queue'' uid) w2 = (Inr False, w3) \<Longrightarrow>
         next_step w3 = (None, w4) \<Longrightarrow>
           quickMatchHandler data context w =
             (Inr \<lparr>resp_success = True, resp_username = None, resp_uid = None\<rparr>,
              emit (FsSet (FsDoc ''quick_matchmaking_queue'' uid)
                      [(''uid'', Str uid), (''created_at'', ServerTimestamp),
                       (''status'', Str ''waiting'')] (Inr ()))
                (w4\<lparr>store := (store w4)(FsDoc ''quick_matchmaking_queue'' uid \<mapsto>
                        [(''uid'', Str uid), (''created_at'', Num (clock w4)),
                         (''status'', Str ''waiting'')])\<rparr>))"
    and "rtdb_once (RtdbRef ''presence'' uid) w1 = (Inr True, w2) \<Longrightarrow>
         fs_get (FsDoc ''quick_matchmaking_queue'' uid) w2 = (Inr False, w3) \<Longrightarrow>
         next_step w3 = (Some e, w4) \<Longrightarrow>
           quickMatchHandler data context w =
             (Inl (if instanceof_HttpsError e then e
                   else HttpsError ''internal'' ''An unexpected error occurred''),
              emit (FsSet (FsDoc ''quick_matchmaking_queue'' uid)
                      [(''uid'', Str uid), (''created_at'', ServerTimestamp),
                       (''status'', Str ''waiting'')] (Inl e)) w4)"
proof -
  from u have c: "context_auth_uid context = Inr uid"
    by (auto simp: auth_uid_def context_auth_uid_def split: option.splits if_splits)
  note defs = quickMatchHandler_def quickMatchHandler_try_def top_level_catch_def
    getServerTimestamp_def fs_set_def resolve_def
  show "rtdb_once (RtdbRef ''presence'' uid) w1 = (Inr False, w2) \<Longrightarrow>
           quickMatchHandler data context w =
             (Inl (HttpsError ''failed-precondition'' ''User Not Online''), w2)"
    using v c by (simp add: defs)
  show "rtdb_once (RtdbRef ''presence'' uid) w1 = (Inr True, w2) \<Longrightarrow>
         fs_get (FsDoc ''quick_matchmaking_queue'' uid) w2 = (Inr True, w3) \<Longrightarrow>
           quickMatchHandler data context w =
             (Inl (HttpsError ''already-exists'' ''User Already Waiting to be matched''), w3)"
    using v c by (simp add: defs)
  {
    assume o: "rtdb_once (RtdbRef ''presence'' uid) w1 = (Inr True, w2)"
      and g: "fs_get (FsDoc ''quick_matchmaking_queue'' uid) w2 = (Inr False, w3)"
    from fv field_value_available_rtdb_once [OF o] field_value_available_fs_get [OF g]
    have f3: "field_value_available w3" by simp
    show "next_step w3 = (None, w4) \<Longrightarrow>
           quickMatchHandler data context w =
             (Inr \<lparr>resp_success = True, resp_username = None, resp_uid = None\<rparr>,
              emit (FsSet (FsDoc ''quick_matchmaking_queue'' uid)
                      [(''uid'', Str uid), (''created_at'', ServerTimestamp),
                       (''status'', Str ''waiting'')] (Inr ()))
                (w4\<lparr>store := (store w4)(FsDoc ''quick_matchmaking_queue'' uid \<mapsto>
                        [(''uid'', Str uid), (''created_at'', Num (clock w4)),
                         (''status'', Str ''waiting'')])\<rparr>))"
      using v c o g f3 by (simp add: defs)
    show "next_step w3 = (Some e, w4) \<Longrightarrow>
           quickMatchHandler data context w =
             (Inl (if instanceof_HttpsError e then e
                   else HttpsError ''internal'' ''An unexpected error occurred''),
              emit (FsSet (FsDoc ''quick_matchmaking_queue'' uid)
                      [(''uid'', Str uid), (''created_at'', ServerTimestamp),
                       (''status'', Str ''waiting'')] (Inl e)) w4)"
      using v c o g f3 by (simp add: defs)
  }
qed

text \<open>In a quiet environment a username that has a record is refused.\<close>

lemma createNewUser_quiet_taken:
  assumes "auth_uid context = Some uid" and "accounts w uid = Some userRecord"
    and "emailVerified userRecord" and "data = Data (JString raw)"
    and "regex_match usernameRegex (trim raw)" and "schedule w = []"
    and "store w (RtdbRef ''users'' uid) = None"
    and "store w (RtdbRef ''usernames'' (trim raw)) \<noteq> None"
  shows "fst (createNewUser data context w) =
           Inl (HttpsError ''already-exists'' ''username already taken'')"
  using assms
  by (auto simp add: createNewUser_def createNewUser_try_def top_level_catch_def
        quiet_getUser quiet_rtdb_once Let_def)

section \<open>The authorization gate\<close>

text \<open>
  C10. The user-record lookup of the gate is the first call to an external service in
  every operation. When it is rejected, with any error, also one that is an HttpsError
  already, createNewUser (both variants), quickMatch and cancelQuickMatch throw
  internal, "Failed to retrieve user information", and stop in the world the lookup
  left: the lookup is the only call they made, so no store was touched. (The variants
  that check App Check do so before the lookup.)
\<close>

theorem lookup_failure_is_internal:
  assumes "auth_uid context = Some uid" and "fst (getUser uid w) = Inl error"
  shows "createNewUser data context w =
           (Inl (HttpsError ''internal'' ''Failed to retrieve user information''),
            snd (getUser uid w))
       \<and> (app context \<longrightarrow>
            createNewUserHandler data context w =
              (Inl (HttpsError ''internal'' ''Failed to retrieve user information''),
               snd (getUser uid w))
          \<and> quickMatchHandler data context w =
              (Inl (HttpsError ''internal'' ''Failed to retrieve user information''),
               snd (getUser uid w))
          \<and> cancelQuickMatchHandler data context w =
              (Inl (HttpsError ''internal'' ''Failed to retrieve user information''),
               snd (getUser uid w)))
       \<and> trace (snd (getUser uid w)) = trace w @ [AuthGetUser uid (Inl error)]"
proof -
  obtain w1 where g: "getUser uid w = (Inl error, w1)"
    using assms(2) by (cases "getUser uid w") auto
  have a: "createNewUser data context w =
           (Inl (HttpsError ''internal'' ''Failed to retrieve user information''), w1)"
    using assms(1) g by (simp add: createNewUser_def createNewUser_try_def top_level_catch_simps)
  have b: "createNewUserHandler data context w =
           (Inl (HttpsError ''internal'' ''Failed to retrieve user information''), w1)"
    if "app context"
    using assms(1) g that
    by (simp add: createNewUserHandler_def createNewUserHandler_try_def top_level_catch_simps)
  have v: "validateAuthAndEmail context fn w =
           (Inl (HttpsError ''internal'' ''Failed to retrieve user information''), w1)"
    if "app context" for fn
    using assms(1) g that by (simp add: validateAuthAndEmail_def)
  have c: "quickMatchHandler data context w =
           (Inl (HttpsError ''internal'' ''Failed to retrieve user information''), w1)"
    if "app context"
    using v [OF that]
    by (simp add: quickMatchHandler_def quickMatchHandler_try_def top_level_catch_simps)
  have d: "cancelQuickMatchHandler data context w =
           (Inl (HttpsError ''internal'' ''Failed to retrieve user information''), w1)"
    if "app context"
    using v [OF that]
    by (simp add: cancelQuickMatchHandler_def cancelQuickMatchHandler_try_def
          top_level_catch_simps)
  have t: "trace (snd (getUser uid w)) = trace w @ [AuthGetUser uid (Inl error)]"
    using getUser_failure_trace [OF assms(2)] .
  show ?thesis using a b c d t g by simp
qed

theorem lookup_failure_is_internal_witness:
  "auth_uid caller1 = Some ''uid-1''
   \<and> fst (getUser ''uid-1''
        (quiet_world\<lparr>schedule := [failing (HttpsError ''failed-precondition''
                                              ''use a verified email address to continue'')]\<rparr>))
       = Inl (HttpsError ''failed-precondition'' ''use a verified email address to continue'')
   \<and> app caller1
   \<and> fst (cancelQuickMatchHandler NoData caller1
        (quiet_world\<lparr>schedule := [failing (HttpsError ''failed-precondition''
                                              ''use a verified email address to continue'')]\<rparr>))
       = Inl (HttpsError ''internal'' ''Failed to retrieve user information'')
   \<and> fst (createNewUser (Data (JString ''testuser123'')) caller1
        (quiet_world\<lparr>schedule := [failing (HttpsError ''failed-precondition''
                                              ''use a verified email address to continue'')]\<rparr>))
       = Inl (HttpsError ''internal'' ''Failed to retrieve user information'')"
proof -
  let ?e = "HttpsError ''failed-precondition'' ''use a verified email address to continue''"
  let ?w = "quiet_world\<lparr>schedule := [failing ?e]\<rparr>"
  have h1: "auth_uid caller1 = Some ''uid-1''"
    by (simp add: auth_uid_def caller1_def)
  have h2: "fst (getUser ''uid-1'' ?w) = Inl ?e"
    by (simp add: getUser_def next_step_def quiet_world_def failing_def Let_def)
  have h3: "app caller1"
    by (simp add: caller1_def)
  show ?thesis
    using lookup_failure_is_internal [OF h1 h2, of "NoData"]
          lookup_failure_is_internal [OF h1 h2, of "Data (JString ''testuser123'')"] h1 h2 h3
    by simp
qed

section \<open>cancelQuickMatch: the delete loop\<close>

declare deleteWithRetry_loop.simps [simp del]

lemma deleteWithRetry_attempt_cases:
  assumes "deleteWithRetry_attempt p w = (r, w')"
  obtains (absent) "r = Inr True" "trace w' = trace w @ [FsGet p (Inr False)]"
  | (deleted) "r = Inr True" "trace w' = trace w @ [FsGet p (Inr True), FsDelete p (Inr ())]"
  | (get_failed) e where "r = Inl e" "trace w' = trace w @ [FsGet p (Inl e)]"
  | (delete_failed) e where "r = Inl e" "trace w' = trace w @ [FsGet p (Inr True), FsDelete p (Inl e)]"
proof -
  obtain r1 w1 where g: "fs_get p w = (r1, w1)" by (cases "fs_get p w")
  note t1 = fs_get_trace [OF g]
  show thesis
  proof (cases r1)
    case (Inl e)
    with assms g t1 get_failed show ?thesis by (auto simp: deleteWithRetry_attempt_def)
  next
    case (Inr ex)
    show ?thesis
    proof (cases ex)
      case False
      with Inr assms g t1 absent show ?thesis by (auto simp: deleteWithRetry_attempt_def)
    next
      case True
      obtain r2 w2 where d: "fs_delete p w1 = (r2, w2)" by (cases "fs_delete p w1")
      note t2 = fs_delete_trace [OF d]
      show ?thesis
      proof (cases r2)
        case (Inl e)
        with True Inr assms g d t1 t2 delete_failed show ?thesis
          by (auto simp: deleteWithRetry_attempt_def)
      next
        case (Inr u)
        with True \<open>r1 = Inr ex\<close> assms g d t1 t2 deleted show ?thesis
          by (auto simp: deleteWithRetry_attempt_def)
      qed
    qed
  qed
qed

text \<open>One turn of the loop, by what the attempt answered.\<close>

lemma deleteWithRetry_loop_done:
  "a \<le> n \<Longrightarrow> deleteWithRetry_attempt p w = (Inr b, w1) \<Longrightarrow>
   deleteWithRetry_loop p n d a w = (Inr b, w1)"
  by (simp add: deleteWithRetry_loop.simps [of p n d a w])

lemma deleteWithRetry_loop_stop:
  "a \<le> n \<Longrightarrow> deleteWithRetry_attempt p w = (Inl e, w1) \<Longrightarrow> \<not> (isLockedError e \<and> a < n) \<Longrightarrow>
   deleteWithRetry_loop p n d a w = (Inr False, w1)"
  by (auto simp add: deleteWithRetry_loop.simps [of p n d a w])

lemma deleteWithRetry_loop_retry:
  "a < n \<Longrightarrow> deleteWithRetry_attempt p w = (Inl e, w1) \<Longrightarrow> isLockedError e \<Longrightarrow>
   deleteWithRetry_loop p n d a w = deleteWithRetry_loop p n d (a + 1) (snd (sleep d w1))"
  by (simp add: deleteWithRetry_loop.simps [of p n d a w] sleep_def)

lemma deleteWithRetry_loop_over:
  "\<not> a \<le> n \<Longrightarrow> deleteWithRetry_loop p n d a w = (Inr False, w)"
  by (simp add: deleteWithRetry_loop.simps [of p n d a w])

lemma deleteWithRetry_loop_returns:
  "\<exists>b. fst (deleteWithRetry_loop p n d a w) = Inr b"
proof (induction p n d a w rule: deleteWithRetry_loop.induct)
  case (1 p n d a w)
  show ?case
  proof (cases "a \<le> n")
    case False
    then show ?thesis by (auto simp add: deleteWithRetry_loop_over)
  next
    case True
    obtain r w1 where att: "deleteWithRetry_attempt p w = (r, w1)"
      by (cases "deleteWithRetry_attempt p w")
    show ?thesis
    proof (cases r)
      case (Inr b)
      with True att show ?thesis by (simp add: deleteWithRetry_loop_done)
    next
      case (Inl e)
      show ?thesis
      proof (cases "isLockedError e \<and> a < n")
        case False
        with True att Inl show ?thesis by (auto simp add: deleteWithRetry_loop_stop)
      next
        case retry: True
        obtain w2 where s: "sleep d w1 = (Inr (), w2)" by (simp add: sleep_def)
        from "1.IH" [OF True att [symmetric] Inl retry s [symmetric] refl]
        show ?thesis using att Inl retry s by (simp add: deleteWithRetry_loop_retry)
      qed
    qed
  qed
qed

lemma deleteWithRetry_loop_trace:
  "\<exists>evs. trace (snd (deleteWithRetry_loop p n d a w)) = trace w @ evs"
proof (induction p n d a w rule: deleteWithRetry_loop.induct)
  case (1 p n d a w)
  show ?case
  proof (cases "a \<le> n")
    case False
    then show ?thesis by (simp add: deleteWithRetry_loop_over)
  next
    case True
    obtain r w1 where att: "deleteWithRetry_attempt p w = (r, w1)"
      by (cases "deleteWithRetry_attempt p w")
    have t1: "\<exists>evs. trace w1 = trace w @ evs"
      using att by (rule deleteWithRetry_attempt_cases) auto
    show ?thesis
    proof (cases r)
      case (Inr b)
      with True att t1 show ?thesis by (simp add: deleteWithRetry_loop_done)
    next
      case (Inl e)
      show ?thesis
      proof (cases "isLockedError e \<and> a < n")
        case False
        with True att Inl t1 show ?thesis by (simp add: deleteWithRetry_loop_stop)
      next
        case retry: True
        obtain w2 where s: "sleep d w1 = (Inr (), w2)" by (simp add: sleep_def)
        have t2: "trace w2 = trace w1 @ [Sleep d]"
          using sleep_trace [OF s] by simp
        from "1.IH" [OF True att [symmetric] Inl retry s [symmetric] refl]
        obtain evs where "trace (snd (deleteWithRetry_loop p n d (a + 1) w2)) = trace w2 @ evs"
          by blast
        then show ?thesis using att Inl retry s t1 t2
          by (auto simp add: deleteWithRetry_loop_retry)
      qed
    qed
  qed
qed

lemma contended_shape:
  assumes "deleteWithRetry_loop p n d a w = (r, w')" and "a \<le> n"
    and "trace w' = trace w @ evs" and "\<forall>ev\<in>set evs. delete_fails_contended ev"
  shows "r = Inr False \<and>
         (\<exists>es e'. length es = n - a \<and>
            evs = concat (map (\<lambda>e. [FsGet p (Inr True), FsDelete p (Inl e), Sleep d]) es)
                  @ [FsGet p (Inr True), FsDelete p (Inl e')])"
  using assms
proof (induction p n d a w arbitrary: evs rule: deleteWithRetry_loop.induct)
  case (1 p n d a w)
  obtain ra w1 where att: "deleteWithRetry_attempt p w = (ra, w1)"
    by (cases "deleteWithRetry_attempt p w")
  note le = \<open>a \<le> n\<close>
  from att show ?case
  proof (cases rule: deleteWithRetry_attempt_cases)
    case absent
    with att le "1.prems" show ?thesis by (auto simp add: deleteWithRetry_loop_done)
  next
    case deleted
    with att le "1.prems" show ?thesis by (auto simp add: deleteWithRetry_loop_done)
  next
    case (get_failed e)
    have "\<exists>evs'. trace w' = trace w1 @ evs'"
    proof (cases "isLockedError e \<and> a < n")
      case False
      with att le get_failed "1.prems"(1) show ?thesis by (simp add: deleteWithRetry_loop_stop)
    next
      case True
      with att get_failed "1.prems"(1)
      have "deleteWithRetry_loop p n d (a + 1) (snd (sleep d w1)) = (r, w')"
        by (simp add: deleteWithRetry_loop_retry)
      with deleteWithRetry_loop_trace [of p n d "a + 1" "snd (sleep d w1)"]
      show ?thesis by (auto simp: sleep_def emit_def)
    qed
    with get_failed "1.prems"(3,4) show ?thesis by auto
  next
    case (delete_failed e)
    show ?thesis
    proof (cases "isLockedError e \<and> a < n")
      case False
      with att le delete_failed "1.prems"(1)
      have res: "r = Inr False" "w' = w1" by (simp_all add: deleteWithRetry_loop_stop)
      with delete_failed "1.prems"(3) have evs: "evs = [FsGet p (Inr True), FsDelete p (Inl e)]"
        by simp
      with "1.prems"(4) have "isLockedError e" by simp
      with False le have "n - a = 0" by simp
      with res evs show ?thesis by simp
    next
      case True
      obtain w2 where s: "sleep d w1 = (Inr (), w2)" by (simp add: sleep_def)
      have t2: "trace w2 = trace w1 @ [Sleep d]"
        using sleep_trace [OF s] by simp
      from True att delete_failed "1.prems"(1) s
      have rec: "deleteWithRetry_loop p n d (a + 1) w2 = (r, w')"
        by (simp add: deleteWithRetry_loop_retry)
      from deleteWithRetry_loop_trace [of p n d "a + 1" w2] rec
      obtain evs2 where e2: "trace w' = trace w2 @ evs2" by auto
      with t2 delete_failed "1.prems"(3)
      have evs: "evs = [FsGet p (Inr True), FsDelete p (Inl e), Sleep d] @ evs2" by simp
      with "1.prems"(4) have c2: "\<forall>ev\<in>set evs2. delete_fails_contended ev" by simp
      from True have le2: "a + 1 \<le> n" by simp
      from "1.IH" [OF le att [symmetric] delete_failed(1) True s [symmetric] refl rec le2 e2 c2]
      obtain es e' where r: "r = Inr False" and l: "length es = n - (a + 1)"
        and sh: "evs2 = concat (map (\<lambda>e. [FsGet p (Inr True), FsDelete p (Inl e), Sleep d]) es)
                  @ [FsGet p (Inr True), FsDelete p (Inl e')]"
        by blast
      have "length (e # es) = n - a" using l True by auto
      moreover have "evs = concat (map (\<lambda>e. [FsGet p (Inr True), FsDelete p (Inl e), Sleep d]) (e # es))
                  @ [FsGet p (Inr True), FsDelete p (Inl e')]"
        using evs sh by simp
      ultimately show ?thesis using r by blast
    qed
  qed
qed

lemma deleteWithRetry_loop_after_attempt:
  assumes "deleteWithRetry_loop p n d a w = (r, w')" and "a \<le> n"
    and "deleteWithRetry_attempt p w = (ra, w1)"
  shows "\<exists>evs'. trace w' = trace w1 @ evs'"
proof (cases ra)
  case (Inr b)
  with assms show ?thesis by (simp add: deleteWithRetry_loop_done)
next
  case (Inl e)
  show ?thesis
  proof (cases "isLockedError e \<and> a < n")
    case False
    with assms Inl show ?thesis by (auto simp add: deleteWithRetry_loop_stop)
  next
    case True
    with assms Inl have "deleteWithRetry_loop p n d (a + 1) (snd (sleep d w1)) = (r, w')"
      by (simp add: deleteWithRetry_loop_retry)
    with deleteWithRetry_loop_trace [of p n d "a + 1" "snd (sleep d w1)"]
    show ?thesis by (auto simp: sleep_def emit_def)
  qed
qed

lemma absent_stops:
  assumes "deleteWithRetry_loop p n d a w = (r, w')" and "a \<le> n"
    and "trace w' = trace w @ FsGet p (Inr False) # rest"
  shows "rest = [] \<and> r = Inr True"
proof -
  obtain ra w1 where att: "deleteWithRetry_attempt p w = (ra, w1)"
    by (cases "deleteWithRetry_attempt p w")
  from deleteWithRetry_loop_after_attempt [OF assms(1,2) att]
  obtain evs' where ext: "trace w' = trace w1 @ evs'" by blast
  from att show ?thesis
  proof (cases rule: deleteWithRetry_attempt_cases)
    case absent
    with att assms show ?thesis by (auto simp add: deleteWithRetry_loop_done)
  next
    case deleted
    with ext assms(3) show ?thesis by simp
  next
    case (get_failed e)
    with ext assms(3) show ?thesis by simp
  next
    case (delete_failed e)
    with ext assms(3) show ?thesis by simp
  qed
qed

lemma other_failure_stops:
  assumes "deleteWithRetry_loop p n d a w = (r, w')" and "a \<le> n"
    and "trace w' = trace w @ FsGet p (Inr True) # FsDelete p (Inl e) # rest"
    and "\<not> isLockedError e"
  shows "rest = [] \<and> r = Inr False"
proof -
  obtain ra w1 where att: "deleteWithRetry_attempt p w = (ra, w1)"
    by (cases "deleteWithRetry_attempt p w")
  from deleteWithRetry_loop_after_attempt [OF assms(1,2) att]
  obtain evs' where ext: "trace w' = trace w1 @ evs'" by blast
  from att show ?thesis
  proof (cases rule: deleteWithRetry_attempt_cases)
    case absent
    with ext assms(3) show ?thesis by simp
  next
    case deleted
    with ext assms(3) show ?thesis by simp
  next
    case (get_failed e')
    with ext assms(3) show ?thesis by simp
  next
    case (delete_failed e')
    with ext assms(3) have "e' = e" by simp
    with att assms delete_failed show ?thesis by (auto simp add: deleteWithRetry_loop_stop)
  qed
qed

lemma delete_calls_rounds:
  "delete_calls (concat (map (\<lambda>e. [FsGet p (Inr True), FsDelete p (Inl e), Sleep d]) es) @ evs)
     = length es + delete_calls evs"
  by (induction es) (simp_all add: delete_calls_def)

lemma sleeps_rounds:
  "sleeps (concat (map (\<lambda>e. [FsGet p (Inr True), FsDelete p (Inl e), Sleep d]) es) @ evs)
     = replicate (length es) d @ sleeps evs"
  by (induction es) simp_all

text \<open>
  C5. deleteWithRetry, as cancelQuickMatch calls it (10 attempts, 500 ms), read off the
  history of its calls. A failure is contended when isLockedError holds: the code is
  aborted, failed-precondition or unavailable, or the message contains "concurrent" or
  "locked". If every existence check finds the document and every delete is rejected
  with a contended error, the history is nine rounds of check, delete, sleep 500 and a
  tenth round of check and delete: exactly 10 delete calls, 9 sleeps of 500 ms, and the
  result is false. If the first delete is rejected with an error that is not contended,
  nothing follows it: exactly 1 delete call. If the first check finds no document,
  nothing follows it: no delete call, and the result is true.
\<close>

theorem deleteWithRetry_retry_policy:
  assumes "deleteWithRetry docRef 10 500 w = (r, w')"
  shows "trace w' = trace w @ new_events w w'
       \<and> ((\<forall>ev \<in> set (new_events w w'). delete_fails_contended ev) \<longrightarrow>
            r = Inr False \<and> delete_calls (new_events w w') = 10
            \<and> sleeps (new_events w w') = replicate 9 500
            \<and> (\<exists>es e'. length es = 9 \<and>
                 new_events w w' =
                   concat (map (\<lambda>e. [FsGet docRef (Inr True), FsDelete docRef (Inl e), Sleep 500]) es)
                   @ [FsGet docRef (Inr True), FsDelete docRef (Inl e')]))
       \<and> (\<forall>e rest. new_events w w' = FsGet docRef (Inr True) # FsDelete docRef (Inl e) # rest
              \<and> \<not> isLockedError e \<longrightarrow>
            r = Inr False \<and> rest = [] \<and> delete_calls (new_events w w') = 1)
       \<and> (\<forall>rest. new_events w w' = FsGet docRef (Inr False) # rest \<longrightarrow>
            r = Inr True \<and> rest = [] \<and> delete_calls (new_events w w') = 0)"
proof -
  from assms have run: "deleteWithRetry_loop docRef 10 500 1 w = (r, w')"
    by (simp add: deleteWithRetry_def)
  from deleteWithRetry_loop_trace [of docRef 10 500 1 w] run
  obtain evs where t: "trace w' = trace w @ evs" by auto
  then have ne: "new_events w w' = evs" by (rule new_events_append)
  have one: "(1::nat) \<le> 10" by simp
  have a: "r = Inr False \<and> delete_calls evs = 10 \<and> sleeps evs = replicate 9 500
            \<and> (\<exists>es e'. length es = 9 \<and>
                 evs = concat (map (\<lambda>e. [FsGet docRef (Inr True), FsDelete docRef (Inl e), Sleep 500]) es)
                   @ [FsGet docRef (Inr True), FsDelete docRef (Inl e')])"
    if c: "\<forall>ev \<in> set evs. delete_fails_contended ev"
  proof -
    from contended_shape [OF run one t c]
    obtain es e' where r: "r = Inr False" and l: "length es = 9"
      and sh: "evs = concat (map (\<lambda>e. [FsGet docRef (Inr True), FsDelete docRef (Inl e), Sleep 500]) es)
                   @ [FsGet docRef (Inr True), FsDelete docRef (Inl e')]"
      by auto
    have "delete_calls evs = 10"
      unfolding sh delete_calls_rounds using l by (simp add: delete_calls_def)
    moreover have "sleeps evs = replicate 9 500"
      unfolding sh sleeps_rounds using l by simp
    ultimately show ?thesis using r l sh by blast
  qed
  have b: "r = Inr False \<and> rest = [] \<and> delete_calls evs = 1"
    if "evs = FsGet docRef (Inr True) # FsDelete docRef (Inl e) # rest" "\<not> isLockedError e"
    for e rest
    using other_failure_stops [OF run one _ that(2), of rest] t that(1)
    by (simp add: delete_calls_def)
  have c: "r = Inr True \<and> rest = [] \<and> delete_calls evs = 0"
    if "evs = FsGet docRef (Inr False) # rest" for rest
    using absent_stops [OF run one, of rest] t that
    by (simp add: delete_calls_def)
  show ?thesis
    unfolding ne using t a b c by blast
qed

lemma gate_passed_uid:
  assumes "fst (validateAuthAndEmail context fn w) = Inr ()"
  shows "\<exists>uid. context_auth_uid context = Inr uid \<and> auth_uid context = Some uid"
  using assms
  by (auto simp: validateAuthAndEmail_def context_auth_uid_def auth_uid_def
           split: if_splits option.splits prod.splits sum.splits)

text \<open>
  C4. For every caller that passes the gate, in every world and under every schedule of
  interference and rejected calls, cancelQuickMatch resolves with {success: true}:
  deleteWithRetry never throws, and the handler ignores what it returns.
\<close>

theorem cancelQuickMatch_always_succeeds:
  assumes "fst (validateAuthAndEmail context ''cancelQuickMatch'' w) = Inr ()"
  shows "fst (cancelQuickMatchHandler data context w) =
           Inr \<lparr>resp_success = True, resp_username = None, resp_uid = None\<rparr>"
proof -
  obtain w1 where v: "validateAuthAndEmail context ''cancelQuickMatch'' w = (Inr (), w1)"
    using assms by (cases "validateAuthAndEmail context ''cancelQuickMatch'' w") auto
  from gate_passed_uid [OF assms] obtain uid where u: "context_auth_uid context = Inr uid"
    by blast
  obtain b where "fst (deleteWithRetry (FsDoc ''quick_matchmaking_queue'' uid) 10 500 w1) = Inr b"
    using deleteWithRetry_loop_returns [of "FsDoc ''quick_matchmaking_queue'' uid" 10 500 1 w1]
    unfolding deleteWithRetry_def by blast
  then obtain w2 where "deleteWithRetry (FsDoc ''quick_matchmaking_queue'' uid) 10 500 w1 = (Inr b, w2)"
    by (cases "deleteWithRetry (FsDoc ''quick_matchmaking_queue'' uid) 10 500 w1") auto
  with v u show ?thesis
    by (simp add: cancelQuickMatchHandler_def cancelQuickMatchHandler_try_def top_level_catch_simps)
qed

theorem cancelQuickMatch_always_succeeds_witness:
  "fst (validateAuthAndEmail caller1 ''cancelQuickMatch''
          (waiting_world\<lparr>schedule := [ok_step, ok_step, failing otherError]\<rparr>)) = Inr ()
   \<and> fst (cancelQuickMatchHandler NoData caller1
          (waiting_world\<lparr>schedule := [ok_step, ok_step, failing otherError]\<rparr>)) =
       Inr \<lparr>resp_success = True, resp_username = None, resp_uid = None\<rparr>
   \<and> store (snd (cancelQuickMatchHandler NoData caller1
          (waiting_world\<lparr>schedule := [ok_step, ok_step, failing otherError]\<rparr>)))
        (FsDoc ''quick_matchmaking_queue'' ''uid-1'') \<noteq> None"
proof -
  let ?w = "waiting_world\<lparr>schedule := [ok_step, ok_step, failing otherError]\<rparr>"
  have h: "fst (validateAuthAndEmail caller1 ''cancelQuickMatch'' ?w) = Inr ()"
    by (simp add: validateAuthAndEmail_def auth_uid_def getUser_def world_eval)
  have s: "store (snd (cancelQuickMatchHandler NoData caller1 ?w))
        (FsDoc ''quick_matchmaking_queue'' ''uid-1'') \<noteq> None"
    by (simp add: cancelQuickMatchHandler_def cancelQuickMatchHandler_try_def
          validateAuthAndEmail_def auth_uid_def getUser_def context_auth_uid_def
          deleteWithRetry_def deleteWithRetry_loop.simps deleteWithRetry_attempt_def
          fs_get_def fs_delete_def isLockedError_def top_level_catch_def world_eval)
  show ?thesis
    using cancelQuickMatch_always_succeeds [OF h, of NoData] h s by simp
qed

theorem deleteWithRetry_retry_policy_witness:
  "list_all delete_fails_contended (new_events
        (waiting_world\<lparr>schedule := concat (replicate 10 [ok_step, failing lockedError])\<rparr>)
        (snd (deleteWithRetry (FsDoc ''quick_matchmaking_queue'' ''uid-1'') 10 500
           (waiting_world\<lparr>schedule := concat (replicate 10 [ok_step, failing lockedError])\<rparr>))))
   \<and> fst (deleteWithRetry (FsDoc ''quick_matchmaking_queue'' ''uid-1'') 10 500
           (waiting_world\<lparr>schedule := concat (replicate 10 [ok_step, failing lockedError])\<rparr>))
       = Inr False
   \<and> delete_calls (new_events
        (waiting_world\<lparr>schedule := concat (replicate 10 [ok_step, failing lockedError])\<rparr>)
        (snd (deleteWithRetry (FsDoc ''quick_matchmaking_queue'' ''uid-1'') 10 500
           (waiting_world\<lparr>schedule := concat (replicate 10 [ok_step, failing lockedError])\<rparr>))))
       = 10
   \<and> sleeps (new_events
        (waiting_world\<lparr>schedule := concat (replicate 10 [ok_step, failing lockedError])\<rparr>)
        (snd (deleteWithRetry (FsDoc ''quick_matchmaking_queue'' ''uid-1'') 10 500
           (waiting_world\<lparr>schedule := concat (replicate 10 [ok_step, failing lockedError])\<rparr>))))
       = replicate 9 500
   \<and> \<not> isLockedError otherError
   \<and> new_events (waiting_world\<lparr>schedule := [ok_step, failing otherError]\<rparr>)
        (snd (deleteWithRetry (FsDoc ''quick_matchmaking_queue'' ''uid-1'') 10 500
           (waiting_world\<lparr>schedule := [ok_step, failing otherError]\<rparr>)))
       = [FsGet (FsDoc ''quick_matchmaking_queue'' ''uid-1'') (Inr True),
          FsDelete (FsDoc ''quick_matchmaking_queue'' ''uid-1'') (Inl otherError)]
   \<and> fst (deleteWithRetry (FsDoc ''quick_matchmaking_queue'' ''uid-1'') 10 500
           (waiting_world\<lparr>schedule := [ok_step, failing otherError]\<rparr>))
       = Inr False
   \<and> new_events quiet_world
        (snd (deleteWithRetry (FsDoc ''quick_matchmaking_queue'' ''uid-1'') 10 500 quiet_world))
       = [FsGet (FsDoc ''quick_matchmaking_queue'' ''uid-1'') (Inr False)]
   \<and> fst (deleteWithRetry (FsDoc ''quick_matchmaking_queue'' ''uid-1'') 10 500 quiet_world)
       = Inr True"
proof -
  let ?p = "FsDoc ''quick_matchmaking_queue'' ''uid-1''"
  let ?w1 = "waiting_world\<lparr>schedule := concat (replicate 10 [ok_step, failing lockedError])\<rparr>"
  let ?w2 = "waiting_world\<lparr>schedule := [ok_step, failing otherError]\<rparr>"
  have rep: "replicate 10 x = [x, x, x, x, x, x, x, x, x, x]" for x :: "env_step list"
    by (simp add: numeral_eq_Suc)
  have rep9: "replicate 9 x = [x, x, x, x, x, x, x, x, x]" for x :: "event list"
    by (simp add: numeral_eq_Suc)
  have e1: "new_events ?w1 (snd (deleteWithRetry ?p 10 500 ?w1)) =
              concat (replicate 9 [FsGet ?p (Inr True), FsDelete ?p (Inl lockedError), Sleep 500])
              @ [FsGet ?p (Inr True), FsDelete ?p (Inl lockedError)]"
    by (simp add: rep rep9 deleteWithRetry_def deleteWithRetry_loop.simps
          deleteWithRetry_attempt_def fs_get_def fs_delete_def sleep_def isLockedError_def
          world_eval)
  have c1: "\<forall>ev \<in> set (new_events ?w1 (snd (deleteWithRetry ?p 10 500 ?w1))).
              delete_fails_contended ev"
    unfolding e1 by (simp add: rep9 isLockedError_def lockedError_def)
  have n: "\<not> isLockedError otherError"
    by (simp add: isLockedError_def otherError_def)
  have e2: "new_events ?w2 (snd (deleteWithRetry ?p 10 500 ?w2)) =
              [FsGet ?p (Inr True), FsDelete ?p (Inl otherError)]"
    by (simp add: deleteWithRetry_def deleteWithRetry_loop.simps deleteWithRetry_attempt_def
          fs_get_def fs_delete_def sleep_def isLockedError_def world_eval)
  have e3: "new_events quiet_world (snd (deleteWithRetry ?p 10 500 quiet_world)) =
              [FsGet ?p (Inr False)]"
    by (simp add: deleteWithRetry_def deleteWithRetry_loop.simps deleteWithRetry_attempt_def
          fs_get_def fs_delete_def sleep_def isLockedError_def world_eval)
  show ?thesis
    using deleteWithRetry_retry_policy [OF prod.collapse [symmetric], of ?p ?w1]
          deleteWithRetry_retry_policy [OF prod.collapse [symmetric], of ?p ?w2]
          deleteWithRetry_retry_policy [OF prod.collapse [symmetric], of ?p quiet_world]
          c1 n e2 e3
    by (simp add: list_all_iff)
qed

section \<open>The answer of a successful createNewUser\<close>

text \<open>
  C7 (amended). A successful createNewUser on the Realtime Database resolves with
  {success: true, username: the trimmed username, uid: the caller's uid}. A successful
  createNewUser on Firestore resolves with {success: true} and nothing else: that
  variant returns neither the username nor the uid.
\<close>

theorem createNewUser_success_response:
  "(fst (createNewUser data context w) = Inr resp \<longrightarrow>
      (\<exists>raw uid. data = Data (JString raw) \<and> auth_uid context = Some uid
         \<and> resp = \<lparr>resp_success = True, resp_username = Some (trim raw), resp_uid = Some uid\<rparr>))
   \<and> (fst (createNewUserHandler data context w) = Inr resp' \<longrightarrow>
        resp' = \<lparr>resp_success = True, resp_username = None, resp_uid = None\<rparr>)"
proof (intro conjI impI)
  assume a: "fst (createNewUser data context w) = Inr resp"
  obtain w' where run: "createNewUser data context w = (Inr resp, w')"
    using a by (cases "createNewUser data context w") auto
  from createNewUser_history [OF run]
  obtain uid raw :: string and r2 :: "js_error + bool" where
    "auth_uid context = Some uid" "username_string data = Some raw"
    "Inr resp = (case r2 of Inl e \<Rightarrow> Inl e
                 | Inr b \<Rightarrow> Inr \<lparr>resp_success = True, resp_username = Some (trim raw),
                                  resp_uid = Some uid\<rparr>)"
    by auto
  moreover from this(2) have "data = Data (JString raw)"
    by (auto elim: username_string.elims)
  ultimately show "\<exists>raw uid. data = Data (JString raw) \<and> auth_uid context = Some uid
         \<and> resp = \<lparr>resp_success = True, resp_username = Some (trim raw), resp_uid = Some uid\<rparr>"
    by (cases r2) auto
next
  assume b: "fst (createNewUserHandler data context w) = Inr resp'"
  obtain w' where run: "createNewUserHandler data context w = (Inr resp', w')"
    using b by (cases "createNewUserHandler data context w") auto
  from createNewUserHandler_history [OF run]
  obtain r2 :: "js_error + bool" where
    "Inr resp' = (case r2 of Inl e \<Rightarrow> Inl e
                 | Inr b \<Rightarrow> Inr \<lparr>resp_success = True, resp_username = None,
                                  resp_uid = None\<rparr>)"
    by auto
  then show "resp' = \<lparr>resp_success = True, resp_username = None, resp_uid = None\<rparr>"
    by (cases r2) auto
qed

text \<open>
  The Firestore variant, called with a valid username in a quiet world, succeeds with an
  answer that has no username property.
\<close>

theorem createNewUserHandler_response_counterexample:
  "fst (createNewUserHandler (Data (JString ''testuser123'')) caller1 quiet_world) =
     Inr \<lparr>resp_success = True, resp_username = None, resp_uid = None\<rparr>
   \<and> fst (createNewUserHandler (Data (JString ''testuser123'')) caller1 quiet_world) \<noteq>
     Inr \<lparr>resp_success = True, resp_username = Some ''testuser123'', resp_uid = Some ''uid-1''\<rparr>"
  by (simp add: handler_eval world_eval)

theorem createNewUser_success_response_witness:
  "fst (createNewUser (Data (JString '' testuser123 '')) caller1 quiet_world) =
     Inr \<lparr>resp_success = True, resp_username = Some ''testuser123'', resp_uid = Some ''uid-1''\<rparr>
   \<and> (\<exists>raw uid. Data (JString '' testuser123 '') = Data (JString raw)
         \<and> auth_uid caller1 = Some uid
         \<and> \<lparr>resp_success = True, resp_username = Some ''testuser123'', resp_uid = Some ''uid-1''\<rparr>
             = \<lparr>resp_success = True, resp_username = Some (trim raw), resp_uid = Some uid\<rparr>)
   \<and> fst (createNewUserHandler (Data (JString '' testuser123 '')) caller1 quiet_world) =
     Inr \<lparr>resp_success = True, resp_username = None, resp_uid = None\<rparr>"
proof -
  have a: "fst (createNewUser (Data (JString '' testuser123 '')) caller1 quiet_world) =
     Inr \<lparr>resp_success = True, resp_username = Some ''testuser123'', resp_uid = Some ''uid-1''\<rparr>"
    by (simp add: handler_eval world_eval)
  have b: "fst (createNewUserHandler (Data (JString '' testuser123 '')) caller1 quiet_world) =
     Inr \<lparr>resp_success = True, resp_username = None, resp_uid = None\<rparr>"
    by (simp add: handler_eval world_eval)
  from createNewUser_success_response
         [of "Data (JString '' testuser123 '')" caller1 quiet_world
             "\<lparr>resp_success = True, resp_username = Some ''testuser123'', resp_uid = Some ''uid-1''\<rparr>"
             "\<lparr>resp_success = True, resp_username = None, resp_uid = None\<rparr>"] a b
  show ?thesis by blast
qed

section \<open>One creation time on both records\<close>

text \<open>
  C2. After a successful createNewUser the committed transactions of the call wrote
  exactly two documents, the username record and the user record of the caller, and both
  carry the same number in created_at. On the Realtime Database the user record is
  written with the value read back from the committed username transaction, however much
  later the second transaction commits; on Firestore both documents are written by one
  transaction with one server time. The user record (on Firestore, both records) is in
  the store the handler ends with.
\<close>

theorem createdAt_agreement:
  "(createNewUser data context w = (Inr resp, w') \<longrightarrow>
      (\<exists>raw uid d1 d2 t.
         data = Data (JString raw) \<and> auth_uid context = Some uid
         \<and> transaction_writes (new_events w w') =
             [(RtdbRef ''usernames'' (trim raw), d1), (RtdbRef ''users'' uid, d2)]
         \<and> field d1 ''created_at'' = Num t \<and> field d2 ''created_at'' = Num t
         \<and> store w' (RtdbRef ''users'' uid) = Some d2))
   \<and> (createNewUserHandler data context w = (Inr resp, w') \<longrightarrow>
      (\<exists>raw uid d1 d2 t.
         data = Data (JString raw) \<and> auth_uid context = Some uid
         \<and> transaction_writes (new_events w w') =
             [(FsDoc ''usernames'' (trim raw), d1), (FsDoc ''users'' uid, d2)]
         \<and> field d1 ''created_at'' = Num t \<and> field d2 ''created_at'' = Num t
         \<and> store w' (FsDoc ''usernames'' (trim raw)) = Some d1
         \<and> store w' (FsDoc ''users'' uid) = Some d2))"
proof (intro conjI impI)
  assume run: "createNewUser data context w = (Inr resp, w')"
  from createNewUser_history [OF run]
  obtain uid userRecord raw t evs1 evs2 r2 where
    u: "auth_uid context = Some uid" and d: "username_string data = Some raw"
    and tr: "trace w' = trace w @
                 [AuthGetUser uid (Inr userRecord),
                  RtdbOnce (RtdbRef ''users'' uid) (Inr False),
                  RtdbOnce (RtdbRef ''usernames'' (trim raw)) (Inr False)] @ evs1 @ evs2"
    and h1: "createUsername_history (trim raw) 1 evs1 (Inr (Some (Num t)))"
    and h2: "createUser_history uid (trim raw)
                 [(''created_at'', Num t), (''username'', Str (trim raw)),
                  (''email_address'', Str (email userRecord))] 1 evs2 r2"
    and st: "settled (last evs2) w'"
    and r: "Inr resp = (case r2 of Inl e \<Rightarrow> Inl e
                 | Inr b \<Rightarrow> Inr \<lparr>resp_success = True, resp_username = Some (trim raw),
                                  resp_uid = Some uid\<rparr>)"
    by auto
  from r createUser_history_first_attempt [OF h2] have r2: "r2 = Inr True" by auto
  from createUsername_history_writes [OF h1]
  obtain d1 where w1: "transaction_writes evs1 = [(RtdbRef ''usernames'' (trim raw), d1)]"
    and f1: "field d1 ''created_at'' = Num t" by blast
  let ?d = "[(''created_at'', Num t), (''username'', Str (trim raw)),
                  (''email_address'', Str (email userRecord))]"
  from createUser_history_writes [OF h2 [unfolded r2]]
  obtain res now where w2: "transaction_writes evs2 = [(RtdbRef ''users'' uid, resolve now ?d)]"
    and l: "last evs2 = RtdbTransaction (RtdbRef ''users'' uid) (Inr res)"
    and c: "committed res" "snapshot res = Some (resolve now ?d)" by blast
  from st l c have s2: "store w' (RtdbRef ''users'' uid) = Some (resolve now ?d)" by simp
  have f2: "field (resolve now ?d) ''created_at'' = Num t"
    by (simp add: field_def resolve_def)
  have ne: "new_events w w' = [AuthGetUser uid (Inr userRecord),
                  RtdbOnce (RtdbRef ''users'' uid) (Inr False),
                  RtdbOnce (RtdbRef ''usernames'' (trim raw)) (Inr False)] @ evs1 @ evs2"
    using tr by (rule new_events_append)
  from d have dd: "data = Data (JString raw)" by (auto elim: username_string.elims)
  show "\<exists>raw uid d1 d2 t.
         data = Data (JString raw) \<and> auth_uid context = Some uid
         \<and> transaction_writes (new_events w w') =
             [(RtdbRef ''usernames'' (trim raw), d1), (RtdbRef ''users'' uid, d2)]
         \<and> field d1 ''created_at'' = Num t \<and> field d2 ''created_at'' = Num t
         \<and> store w' (RtdbRef ''users'' uid) = Some d2"
    using dd u w1 w2 f1 f2 s2 unfolding ne
    by - (rule exI [of _ raw], rule exI [of _ uid], rule exI [of _ d1],
          rule exI [of _ "resolve now ?d"], rule exI [of _ t], simp)
next
  assume run: "createNewUserHandler data context w = (Inr resp, w')"
  from createNewUserHandler_history [OF run]
  obtain uid userRecord raw evs r2 where
    u: "auth_uid context = Some uid" and d: "username_string data = Some raw"
    and tr: "trace w' = trace w @
                 [AuthGetUser uid (Inr userRecord),
                  FsGet (FsDoc ''users'' uid) (Inr False)] @ evs"
    and h: "createNewUserHandler_history uid (trim raw) userRecord 1 evs r2"
    and st: "evs \<noteq> [] \<longrightarrow> settled (last evs) w'"
    and r: "Inr resp = (case r2 of Inl e \<Rightarrow> Inl e
                 | Inr b \<Rightarrow> Inr \<lparr>resp_success = True, resp_username = None,
                                  resp_uid = None\<rparr>)"
    by blast
  from r createNewUserHandler_history_first_attempt [OF h] have r2: "r2 = Inr True" by auto
  let ?d1 = "\<lambda>now. [(''uid'', Str uid), (''created_at'', Num now)]"
  let ?d2 = "\<lambda>now. [(''created_at'', Num now), (''username'', Str (trim raw)),
                 (''email_address'', Str (email userRecord))]"
  from createNewUserHandler_history_writes [OF h [unfolded r2]]
  obtain now where ws: "transaction_writes evs =
            [(FsDoc ''usernames'' (trim raw), ?d1 now), (FsDoc ''users'' uid, ?d2 now)]"
    and ne: "evs \<noteq> []" and l: "last evs = FsRunTransaction (Inr (transaction_writes evs))"
    by blast
  from st ne l ws have s: "store w' (FsDoc ''usernames'' (trim raw)) = Some (?d1 now)"
    "store w' (FsDoc ''users'' uid) = Some (?d2 now)" by simp_all
  have nev: "new_events w w' = [AuthGetUser uid (Inr userRecord),
                  FsGet (FsDoc ''users'' uid) (Inr False)] @ evs"
    using tr by (rule new_events_append)
  from d have dd: "data = Data (JString raw)" by (auto elim: username_string.elims)
  show "\<exists>raw uid d1 d2 t.
         data = Data (JString raw) \<and> auth_uid context = Some uid
         \<and> transaction_writes (new_events w w') =
             [(FsDoc ''usernames'' (trim raw), d1), (FsDoc ''users'' uid, d2)]
         \<and> field d1 ''created_at'' = Num t \<and> field d2 ''created_at'' = Num t
         \<and> store w' (FsDoc ''usernames'' (trim raw)) = Some d1
         \<and> store w' (FsDoc ''users'' uid) = Some d2"
    using dd u ws s unfolding nev
    by - (rule exI [of _ raw], rule exI [of _ uid], rule exI [of _ "?d1 now"],
          rule exI [of _ "?d2 now"], rule exI [of _ now], simp add: field_def)
qed

theorem createdAt_agreement_witness:
  "fst (createNewUser (Data (JString ''testuser123'')) caller1
          (quiet_world\<lparr>schedule := [ok_step, ok_step, ok_step, ok_step,
                                     failing otherError, ok_step]\<rparr>)) =
     Inr \<lparr>resp_success = True, resp_username = Some ''testuser123'', resp_uid = Some ''uid-1''\<rparr>
   \<and> clock (snd (createNewUser (Data (JString ''testuser123'')) caller1
             (quiet_world\<lparr>schedule := [ok_step, ok_step, ok_step, ok_step,
                                        failing otherError, ok_step]\<rparr>))) = 1500
   \<and> (\<exists>raw uid d1 d2 t.
         Data (JString ''testuser123'') = Data (JString raw) \<and> auth_uid caller1 = Some uid
         \<and> transaction_writes (new_events
              (quiet_world\<lparr>schedule := [ok_step, ok_step, ok_step, ok_step,
                                         failing otherError, ok_step]\<rparr>)
              (snd (createNewUser (Data (JString ''testuser123'')) caller1
                 (quiet_world\<lparr>schedule := [ok_step, ok_step, ok_step, ok_step,
                                            failing otherError, ok_step]\<rparr>)))) =
             [(RtdbRef ''usernames'' (trim raw), d1), (RtdbRef ''users'' uid, d2)]
         \<and> field d1 ''created_at'' = Num t \<and> field d2 ''created_at'' = Num t
         \<and> store (snd (createNewUser (Data (JString ''testuser123'')) caller1
                 (quiet_world\<lparr>schedule := [ok_step, ok_step, ok_step, ok_step,
                                            failing otherError, ok_step]\<rparr>)))
              (RtdbRef ''users'' uid) = Some d2)
   \<and> fst (createNewUserHandler (Data (JString ''testuser123'')) caller1 quiet_world) =
     Inr \<lparr>resp_success = True, resp_username = None, resp_uid = None\<rparr>
   \<and> (\<exists>raw uid d1 d2 t.
         Data (JString ''testuser123'') = Data (JString raw) \<and> auth_uid caller1 = Some uid
         \<and> transaction_writes (new_events quiet_world
              (snd (createNewUserHandler (Data (JString ''testuser123'')) caller1 quiet_world))) =
             [(FsDoc ''usernames'' (trim raw), d1), (FsDoc ''users'' uid, d2)]
         \<and> field d1 ''created_at'' = Num t \<and> field d2 ''created_at'' = Num t
         \<and> store (snd (createNewUserHandler (Data (JString ''testuser123'')) caller1 quiet_world))
              (FsDoc ''usernames'' (trim raw)) = Some d1
         \<and> store (snd (createNewUserHandler (Data (JString ''testuser123'')) caller1 quiet_world))
              (FsDoc ''users'' uid) = Some d2)"
proof -
  let ?d = "Data (JString ''testuser123'')"
  let ?w = "quiet_world\<lparr>schedule := [ok_step, ok_step, ok_step, ok_step,
                                     failing otherError, ok_step]\<rparr>"
  let ?rA = "\<lparr>resp_success = True, resp_username = Some ''testuser123'',
              resp_uid = Some ''uid-1''\<rparr>"
  let ?rB = "\<lparr>resp_success = True, resp_username = None, resp_uid = None\<rparr>"
  have a: "fst (createNewUser ?d caller1 ?w) = Inr ?rA"
    by (simp add: handler_eval world_eval)
  have c: "clock (snd (createNewUser ?d caller1 ?w)) = 1500"
    by (simp add: handler_eval world_eval)
  have b: "fst (createNewUserHandler ?d caller1 quiet_world) = Inr ?rB"
    by (simp add: handler_eval world_eval)
  have ra: "createNewUser ?d caller1 ?w = (Inr ?rA, snd (createNewUser ?d caller1 ?w))"
    using a by (simp add: prod_eq_iff)
  have rb: "createNewUserHandler ?d caller1 quiet_world =
              (Inr ?rB, snd (createNewUserHandler ?d caller1 quiet_world))"
    using b by (simp add: prod_eq_iff)
  from createdAt_agreement [of ?d caller1 ?w ?rA "snd (createNewUser ?d caller1 ?w)"] ra
  have ca: "\<exists>raw uid d1 d2 t.
         ?d = Data (JString raw) \<and> auth_uid caller1 = Some uid
         \<and> transaction_writes (new_events ?w (snd (createNewUser ?d caller1 ?w))) =
             [(RtdbRef ''usernames'' (trim raw), d1), (RtdbRef ''users'' uid, d2)]
         \<and> field d1 ''created_at'' = Num t \<and> field d2 ''created_at'' = Num t
         \<and> store (snd (createNewUser ?d caller1 ?w)) (RtdbRef ''users'' uid) = Some d2"
    by blast
  from createdAt_agreement [of ?d caller1 quiet_world ?rB
         "snd (createNewUserHandler ?d caller1 quiet_world)"] rb
  have cb: "\<exists>raw uid d1 d2 t.
         ?d = Data (JString raw) \<and> auth_uid caller1 = Some uid
         \<and> transaction_writes (new_events quiet_world
              (snd (createNewUserHandler ?d caller1 quiet_world))) =
             [(FsDoc ''usernames'' (trim raw), d1), (FsDoc ''users'' uid, d2)]
         \<and> field d1 ''created_at'' = Num t \<and> field d2 ''created_at'' = Num t
         \<and> store (snd (createNewUserHandler ?d caller1 quiet_world))
              (FsDoc ''usernames'' (trim raw)) = Some d1
         \<and> store (snd (createNewUserHandler ?d caller1 quiet_world))
              (FsDoc ''users'' uid) = Some d2"
    by blast
  from a c ca b cb show ?thesis by (intro conjI)
qed

section \<open>Rejected usernames\<close>

text \<open>
  C9. For a caller that passes the gate (a uid, a user record that the lookup returns,
  a verified e-mail address), and a request whose username is not a string or whose
  trimmed username breaks the rules (8 to 15 characters, the first a lowercase letter, the
  others lowercase letters, digits or underscores, which is what the regular expression
  of the code accepts), both variants of createNewUser throw invalid-argument and stop in
  the world the lookup left: the lookup is the only call they made, and it does not
  write to the store.
\<close>

theorem invalid_username_rejected:
  assumes "auth_uid context = Some uid"
    and "getUser uid w = (Inr userRecord, w1)"
    and "emailVerified userRecord"
    and "\<forall>raw. data = Data (JString raw) \<longrightarrow> \<not> username_rules (trim raw)"
  shows "createNewUser data context w =
           (Inl (HttpsError ''invalid-argument''
                   (if username_string data = None
                    then ''username is required and must be a string''
                    else ''username rules failed'')), w1)
       \<and> (app context \<longrightarrow>
            createNewUserHandler data context w =
              (Inl (HttpsError ''invalid-argument''
                      (if username_string data = None
                       then ''username is required and must be a string''
                       else ''username rules failed'')), w1))
       \<and> new_events w w1 = [AuthGetUser uid (Inr userRecord)]
       \<and> store w1 = store (snd (next_step w))"
proof -
  have rules: "\<not> regex_match usernameRegex (trim raw)" if "username_string data = Some raw" for raw
  proof -
    from that have "data = Data (JString raw)" by (auto elim: username_string.elims)
    with assms(4) show ?thesis by (simp add: usernameRegex_rules)
  qed
  have a: "createNewUser data context w =
           (Inl (HttpsError ''invalid-argument''
                   (if username_string data = None
                    then ''username is required and must be a string''
                    else ''username rules failed'')), w1)"
    using assms(1-3) rules
    by (cases "username_string data")
       (simp_all add: createNewUser_def createNewUser_try_def top_level_catch_simps)
  have b: "createNewUserHandler data context w =
              (Inl (HttpsError ''invalid-argument''
                      (if username_string data = None
                       then ''username is required and must be a string''
                       else ''username rules failed'')), w1)" if "app context"
    using assms(1-3) rules that
    by (cases "username_string data")
       (simp_all add: createNewUserHandler_def createNewUserHandler_try_def
          top_level_catch_simps)
  have c: "new_events w w1 = [AuthGetUser uid (Inr userRecord)]"
    using getUser_trace [OF assms(2)] by (rule new_events_append)
  have d: "store w1 = store (snd (next_step w))"
    using getUser_store [of uid w] assms(2) by simp
  from a b c d show ?thesis by blast
qed

theorem invalid_username_rejected_witness:
  "auth_uid caller1 = Some ''uid-1''
   \<and> fst (getUser ''uid-1'' quiet_world) =
       Inr \<lparr>email = ''one@example.com'', emailVerified = True\<rparr>
   \<and> \<not> username_rules (trim ''TestUser123'')
   \<and> createNewUser (Data (JString ''TestUser123'')) caller1 quiet_world =
       (Inl (HttpsError ''invalid-argument'' ''username rules failed''),
        snd (getUser ''uid-1'' quiet_world))
   \<and> createNewUserHandler (Data (JString ''TestUser123'')) caller1 quiet_world =
       (Inl (HttpsError ''invalid-argument'' ''username rules failed''),
        snd (getUser ''uid-1'' quiet_world))
   \<and> store (snd (getUser ''uid-1'' quiet_world)) = Map.empty
   \<and> createNewUser (Data (JNumber 12345)) caller1 quiet_world =
       (Inl (HttpsError ''invalid-argument'' ''username is required and must be a string''),
        snd (getUser ''uid-1'' quiet_world))"
proof -
  let ?rec = "\<lparr>email = ''one@example.com'', emailVerified = True\<rparr>"
  have h1: "auth_uid caller1 = Some ''uid-1''"
    by (simp add: auth_uid_def caller1_def)
  have g: "fst (getUser ''uid-1'' quiet_world) = Inr ?rec"
    by (simp add: getUser_def world_eval)
  then have h2: "getUser ''uid-1'' quiet_world = (Inr ?rec, snd (getUser ''uid-1'' quiet_world))"
    by (simp add: prod_eq_iff)
  have h3: "emailVerified ?rec" by simp
  have n: "\<not> username_rules (trim ''TestUser123'')"
    by (simp add: username_rules_def trim_def is_js_whitespace_def lowercase_letter_def)
  have h4: "\<forall>raw. Data (JString ''TestUser123'') = Data (JString raw)
              \<longrightarrow> \<not> username_rules (trim raw)"
    using n by simp
  have h5: "\<forall>raw. Data (JNumber 12345) = Data (JString raw) \<longrightarrow> \<not> username_rules (trim raw)"
    by simp
  have a: "app caller1" by (simp add: caller1_def)
  have s: "store (snd (next_step quiet_world)) = Map.empty"
    by (simp add: world_eval)
  from invalid_username_rejected [OF h1 h2 h3 h4] invalid_username_rejected [OF h1 h2 h3 h5]
    h1 g n a s
  show ?thesis by simp
qed

section \<open>quickMatch: who is admitted to the queue\<close>

text \<open>
  C8. quickMatch never calls anything on the users keyspace, in any run. For a caller
  that passes the gate, in a quiet environment (no call rejected, no interference) with
  server timestamps available: without a presence marker it throws failed-precondition,
  "User Not Online"; with a presence marker and a queue entry it throws already-exists,
  "User Already Waiting to be matched"; with a presence marker and no queue entry it
  sets the queue entry {uid, created_at: server time, status: "waiting"} and resolves
  with {success: true}. Nothing is assumed about a user record of the caller, so this
  holds as well when there is none. In the two failing cases the store is unchanged.

  Under every schedule the outcome follows what the two reads answered. A presence read
  that finds no marker ends the call with failed-precondition in the world of that read;
  a queue read that finds an entry ends it with already-exists in the world of that
  read. After a queue read that found no entry the handler calls set, and the set is
  unconditional: whatever the step of the environment that the set meets does to the
  store, also when another client has put an entry under the caller's key since the
  read, a set that the environment does not reject replaces what the key holds by the
  entry of this call, stamped with the clock of that step, and the handler resolves with
  {success: true}. A set that the environment rejects leaves the store as that step
  made it, and the handler throws the error, an HttpsError as it is and anything else
  as internal, "An unexpected error occurred".
\<close>

theorem quickMatch_admission:
  "list_all (\<lambda>ev. \<not> users_keyspace_call ev)
     (new_events w (snd (quickMatchHandler data context w)))
   \<and> (validateAuthAndEmail context ''quickMatch'' w = (Inr (), w1) \<and> auth_uid context = Some uid
        \<and> schedule w1 = [] \<and> field_value_available w1 \<longrightarrow>
       (store w1 (RtdbRef ''presence'' uid) = None \<longrightarrow>
          fst (quickMatchHandler data context w) =
            Inl (HttpsError ''failed-precondition'' ''User Not Online'')
          \<and> store (snd (quickMatchHandler data context w)) = store w1)
     \<and> (store w1 (RtdbRef ''presence'' uid) \<noteq> None
          \<and> store w1 (FsDoc ''quick_matchmaking_queue'' uid) \<noteq> None \<longrightarrow>
          fst (quickMatchHandler data context w) =
            Inl (HttpsError ''already-exists'' ''User Already Waiting to be matched'')
          \<and> store (snd (quickMatchHandler data context w)) = store w1)
     \<and> (store w1 (RtdbRef ''presence'' uid) \<noteq> None
          \<and> store w1 (FsDoc ''quick_matchmaking_queue'' uid) = None \<longrightarrow>
          fst (quickMatchHandler data context w) =
            Inr \<lparr>resp_success = True, resp_username = None, resp_uid = None\<rparr>
          \<and> store (snd (quickMatchHandler data context w)) =
              (store w1)(FsDoc ''quick_matchmaking_queue'' uid \<mapsto>
                 [(''uid'', Str uid), (''created_at'', Num (clock w1)),
                  (''status'', Str ''waiting'')])))
   \<and> (validateAuthAndEmail context ''quickMatch'' w = (Inr (), w1) \<and> auth_uid context = Some uid
        \<and> field_value_available w1 \<longrightarrow>
       (rtdb_once (RtdbRef ''presence'' uid) w1 = (Inr False, w2) \<longrightarrow>
          quickMatchHandler data context w =
            (Inl (HttpsError ''failed-precondition'' ''User Not Online''), w2))
     \<and> (rtdb_once (RtdbRef ''presence'' uid) w1 = (Inr True, w2)
          \<and> fs_get (FsDoc ''quick_matchmaking_queue'' uid) w2 = (Inr True, w3) \<longrightarrow>
          quickMatchHandler data context w =
            (Inl (HttpsError ''already-exists'' ''User Already Waiting to be matched''), w3))
     \<and> (rtdb_once (RtdbRef ''presence'' uid) w1 = (Inr True, w2)
          \<and> fs_get (FsDoc ''quick_matchmaking_queue'' uid) w2 = (Inr False, w3)
          \<and> next_step w3 = (None, w4) \<longrightarrow>
          quickMatchHandler data context w =
            (Inr \<lparr>resp_success = True, resp_username = None, resp_uid = None\<rparr>,
             emit (FsSet (FsDoc ''quick_matchmaking_queue'' uid)
                     [(''uid'', Str uid), (''created_at'', ServerTimestamp),
                      (''status'', Str ''waiting'')] (Inr ()))
               (w4\<lparr>store := (store w4)(FsDoc ''quick_matchmaking_queue'' uid \<mapsto>
                       [(''uid'', Str uid), (''created_at'', Num (clock w4)),
                        (''status'', Str ''waiting'')])\<rparr>)))
     \<and> (rtdb_once (RtdbRef ''presence'' uid) w1 = (Inr True, w2)
          \<and> fs_get (FsDoc ''quick_matchmaking_queue'' uid) w2 = (Inr False, w3)
          \<and> next_step w3 = (Some e, w4) \<longrightarrow>
          quickMatchHandler data context w =
            (Inl (if instanceof_HttpsError e then e
                  else HttpsError ''internal'' ''An unexpected error occurred''),
             emit (FsSet (FsDoc ''quick_matchmaking_queue'' uid)
                     [(''uid'', Str uid), (''created_at'', ServerTimestamp),
                      (''status'', Str ''waiting'')] (Inl e)) w4)))"
proof -
  have calls: "list_all (\<lambda>ev. \<not> users_keyspace_call ev)
     (new_events w (snd (quickMatchHandler data context w)))"
    by (rule quickMatchHandler_calls)
  have quiet: "validateAuthAndEmail context ''quickMatch'' w = (Inr (), w1) \<and> auth_uid context = Some uid
        \<and> schedule w1 = [] \<and> field_value_available w1 \<longrightarrow>
       (store w1 (RtdbRef ''presence'' uid) = None \<longrightarrow>
          fst (quickMatchHandler data context w) =
            Inl (HttpsError ''failed-precondition'' ''User Not Online'')
          \<and> store (snd (quickMatchHandler data context w)) = store w1)
     \<and> (store w1 (RtdbRef ''presence'' uid) \<noteq> None
          \<and> store w1 (FsDoc ''quick_matchmaking_queue'' uid) \<noteq> None \<longrightarrow>
          fst (quickMatchHandler data context w) =
            Inl (HttpsError ''already-exists'' ''User Already Waiting to be matched'')
          \<and> store (snd (quickMatchHandler data context w)) = store w1)
     \<and> (store w1 (RtdbRef ''presence'' uid) \<noteq> None
          \<and> store w1 (FsDoc ''quick_matchmaking_queue'' uid) = None \<longrightarrow>
          fst (quickMatchHandler data context w) =
            Inr \<lparr>resp_success = True, resp_username = None, resp_uid = None\<rparr>
          \<and> store (snd (quickMatchHandler data context w)) =
              (store w1)(FsDoc ''quick_matchmaking_queue'' uid \<mapsto>
                 [(''uid'', Str uid), (''created_at'', Num (clock w1)),
                  (''status'', Str ''waiting'')]))"
  proof (intro conjI impI)
    assume a: "validateAuthAndEmail context ''quickMatch'' w = (Inr (), w1)
        \<and> auth_uid context = Some uid \<and> schedule w1 = [] \<and> field_value_available w1"
    then have u: "context_auth_uid context = Inr uid"
      by (auto simp: auth_uid_def context_auth_uid_def split: option.splits if_splits)
    note defs = quickMatchHandler_def quickMatchHandler_try_def top_level_catch_def
      getServerTimestamp_def quiet_rtdb_once quiet_fs_get quiet_fs_set resolve_def
    {
      assume "store w1 (RtdbRef ''presence'' uid) = None"
      with a u show "fst (quickMatchHandler data context w) =
              Inl (HttpsError ''failed-precondition'' ''User Not Online'')"
        and "store (snd (quickMatchHandler data context w)) = store w1"
        by (simp_all add: defs)
    next
      assume "store w1 (RtdbRef ''presence'' uid) \<noteq> None
            \<and> store w1 (FsDoc ''quick_matchmaking_queue'' uid) \<noteq> None"
      with a u show "fst (quickMatchHandler data context w) =
              Inl (HttpsError ''already-exists'' ''User Already Waiting to be matched'')"
        and "store (snd (quickMatchHandler data context w)) = store w1"
        by (auto simp add: defs)
    next
      assume "store w1 (RtdbRef ''presence'' uid) \<noteq> None
            \<and> store w1 (FsDoc ''quick_matchmaking_queue'' uid) = None"
      with a u show "fst (quickMatchHandler data context w) =
              Inr \<lparr>resp_success = True, resp_username = None, resp_uid = None\<rparr>"
        and "store (snd (quickMatchHandler data context w)) =
                (store w1)(FsDoc ''quick_matchmaking_queue'' uid \<mapsto>
                   [(''uid'', Str uid), (''created_at'', Num (clock w1)),
                    (''status'', Str ''waiting'')])"
        by (auto simp add: defs)
    }
  qed
  have every: "validateAuthAndEmail context ''quickMatch'' w = (Inr (), w1) \<and> auth_uid context = Some uid
        \<and> field_value_available w1 \<longrightarrow>
       (rtdb_once (RtdbRef ''presence'' uid) w1 = (Inr False, w2) \<longrightarrow>
          quickMatchHandler data context w =
            (Inl (HttpsError ''failed-precondition'' ''User Not Online''), w2))
     \<and> (rtdb_once (RtdbRef ''presence'' uid) w1 = (Inr True, w2)
          \<and> fs_get (FsDoc ''quick_matchmaking_queue'' uid) w2 = (Inr True, w3) \<longrightarrow>
          quickMatchHandler data context w =
            (Inl (HttpsError ''already-exists'' ''User Already Waiting to be matched''), w3))
     \<and> (rtdb_once (RtdbRef ''presence'' uid) w1 = (Inr True, w2)
          \<and> fs_get (FsDoc ''quick_matchmaking_queue'' uid) w2 = (Inr False, w3)
          \<and> next_step w3 = (None, w4) \<longrightarrow>
          quickMatchHandler data context w =
            (Inr \<lparr>resp_success = True, resp_username = None, resp_uid = None\<rparr>,
             emit (FsSet (FsDoc ''quick_matchmaking_queue'' uid)
                     [(''uid'', Str uid), (''created_at'', ServerTimestamp),
                      (''status'', Str ''waiting'')] (Inr ()))
               (w4\<lparr>store := (store w4)(FsDoc ''quick_matchmaking_queue'' uid \<mapsto>
                       [(''uid'', Str uid), (''created_at'', Num (clock w4)),
                        (''status'', Str ''waiting'')])\<rparr>)))
     \<and> (rtdb_once (RtdbRef ''presence'' uid) w1 = (Inr True, w2)
          \<and> fs_get (FsDoc ''quick_matchmaking_queue'' uid) w2 = (Inr False, w3)
          \<and> next_step w3 = (Some e, w4) \<longrightarrow>
          quickMatchHandler data context w =
            (Inl (if instanceof_HttpsError e then e
                  else HttpsError ''internal'' ''An unexpected error occurred''),
             emit (FsSet (FsDoc ''quick_matchmaking_queue'' uid)
                     [(''uid'', Str uid), (''created_at'', ServerTimestamp),
                      (''status'', Str ''waiting'')] (Inl e)) w4))"
  proof (intro conjI impI; elim conjE)
    assume a: "validateAuthAndEmail context ''quickMatch'' w = (Inr (), w1)"
      "auth_uid context = Some uid" "field_value_available w1"
    note o = quickMatchHandler_outcomes [OF a]
    {
      assume "rtdb_once (RtdbRef ''presence'' uid) w1 = (Inr False, w2)"
      then show "quickMatchHandler data context w =
            (Inl (HttpsError ''failed-precondition'' ''User Not Online''), w2)"
        by (rule o(1))
    next
      assume "rtdb_once (RtdbRef ''presence'' uid) w1 = (Inr True, w2)"
        "fs_get (FsDoc ''quick_matchmaking_queue'' uid) w2 = (Inr True, w3)"
      then show "quickMatchHandler data context w =
            (Inl (HttpsError ''already-exists'' ''User Already Waiting to be matched''), w3)"
        by (rule o(2))
    next
      assume "rtdb_once (RtdbRef ''presence'' uid) w1 = (Inr True, w2)"
        "fs_get (FsDoc ''quick_matchmaking_queue'' uid) w2 = (Inr False, w3)"
        "next_step w3 = (None, w4)"
      then show "quickMatchHandler data context w =
            (Inr \<lparr>resp_success = True, resp_username = None, resp_uid = None\<rparr>,
             emit (FsSet (FsDoc ''quick_matchmaking_queue'' uid)
                     [(''uid'', Str uid), (''created_at'', ServerTimestamp),
                      (''status'', Str ''waiting'')] (Inr ()))
               (w4\<lparr>store := (store w4)(FsDoc ''quick_matchmaking_queue'' uid \<mapsto>
                       [(''uid'', Str uid), (''created_at'', Num (clock w4)),
                        (''status'', Str ''waiting'')])\<rparr>))"
        by (rule o(3))
    next
      assume "rtdb_once (RtdbRef ''presence'' uid) w1 = (Inr True, w2)"
        "fs_get (FsDoc ''quick_matchmaking_queue'' uid) w2 = (Inr False, w3)"
        "next_step w3 = (Some e, w4)"
      then show "quickMatchHandler data context w =
            (Inl (if instanceof_HttpsError e then e
                  else HttpsError ''internal'' ''An unexpected error occurred''),
             emit (FsSet (FsDoc ''quick_matchmaking_queue'' uid)
                     [(''uid'', Str uid), (''created_at'', ServerTimestamp),
                      (''status'', Str ''waiting'')] (Inl e)) w4)"
        by (rule o(4))
    }
  qed
  from calls quiet every show ?thesis by (intro conjI)
qed

theorem quickMatch_admission_witness:
  "fst (validateAuthAndEmail caller1 ''quickMatch'' online_world) = Inr ()
   \<and> store online_world (RtdbRef ''users'' ''uid-1'') = None
   \<and> store online_world (FsDoc ''users'' ''uid-1'') = None
   \<and> fst (quickMatchHandler NoData caller1 online_world) =
       Inr \<lparr>resp_success = True, resp_username = None, resp_uid = None\<rparr>
   \<and> store (snd (quickMatchHandler NoData caller1 online_world))
         (FsDoc ''quick_matchmaking_queue'' ''uid-1'') =
       Some [(''uid'', Str ''uid-1''), (''created_at'', Num 1000), (''status'', Str ''waiting'')]
   \<and> fst (quickMatchHandler NoData caller1 quiet_world) =
       Inl (HttpsError ''failed-precondition'' ''User Not Online'')
   \<and> fst (quickMatchHandler NoData caller1 (snd (quickMatchHandler NoData caller1 online_world))) =
       Inl (HttpsError ''already-exists'' ''User Already Waiting to be matched'')
   \<and> list_all (\<lambda>ev. \<not> users_keyspace_call ev)
        (new_events online_world (snd (quickMatchHandler NoData caller1 online_world)))
   \<and> fst (fs_get (FsDoc ''quick_matchmaking_queue'' ''uid-1'')
          (snd (rtdb_once (RtdbRef ''presence'' ''uid-1'')
             (snd (validateAuthAndEmail caller1 ''quickMatch'' racing_world))))) = Inr False
   \<and> store (snd (next_step (snd (fs_get (FsDoc ''quick_matchmaking_queue'' ''uid-1'')
          (snd (rtdb_once (RtdbRef ''presence'' ''uid-1'')
             (snd (validateAuthAndEmail caller1 ''quickMatch'' racing_world))))))))
         (FsDoc ''quick_matchmaking_queue'' ''uid-1'') =
       Some [(''uid'', Str ''uid-1''), (''created_at'', Num 990), (''status'', Str ''matched'')]
   \<and> fst (quickMatchHandler NoData caller1 racing_world) =
       Inr \<lparr>resp_success = True, resp_username = None, resp_uid = None\<rparr>
   \<and> store (snd (quickMatchHandler NoData caller1 racing_world))
         (FsDoc ''quick_matchmaking_queue'' ''uid-1'') =
       Some [(''uid'', Str ''uid-1''), (''created_at'', Num 1000), (''status'', Str ''waiting'')]"
proof -
  note ev = validateAuthAndEmail_def auth_uid_def getUser_def world_eval online_world_def
  let ?v = "\<lambda>w. validateAuthAndEmail caller1 ''quickMatch'' w"
  let ?w2 = "snd (quickMatchHandler NoData caller1 online_world)"
  have u: "auth_uid caller1 = Some ''uid-1''" by (simp add: auth_uid_def caller1_def)
  have v1: "fst (?v online_world) = Inr ()" by (simp add: ev)
  then have g1: "?v online_world = (Inr (), snd (?v online_world))" by (simp add: prod_eq_iff)
  have q1: "schedule (snd (?v online_world)) = []" "field_value_available (snd (?v online_world))"
    "store (snd (?v online_world)) (RtdbRef ''presence'' ''uid-1'') \<noteq> None"
    "store (snd (?v online_world)) (FsDoc ''quick_matchmaking_queue'' ''uid-1'') = None"
    "clock (snd (?v online_world)) = 1000"
    by (simp_all add: ev)
  have v0: "fst (?v quiet_world) = Inr ()" by (simp add: ev)
  then have g0: "?v quiet_world = (Inr (), snd (?v quiet_world))" by (simp add: prod_eq_iff)
  have q0: "schedule (snd (?v quiet_world)) = []" "field_value_available (snd (?v quiet_world))"
    "store (snd (?v quiet_world)) (RtdbRef ''presence'' ''uid-1'') = None"
    by (simp_all add: ev)
  have n: "store online_world (RtdbRef ''users'' ''uid-1'') = None"
    "store online_world (FsDoc ''users'' ''uid-1'') = None"
    by (simp_all add: online_world_def quiet_world_def)
  note first = quickMatch_admission [of online_world NoData caller1 "snd (?v online_world)" "''uid-1''"]
  from first g1 u q1
  have r1: "fst (quickMatchHandler NoData caller1 online_world) =
       Inr \<lparr>resp_success = True, resp_username = None, resp_uid = None\<rparr>"
    and s1: "store ?w2 = (store (snd (?v online_world)))(FsDoc ''quick_matchmaking_queue'' ''uid-1'' \<mapsto>
                 [(''uid'', Str ''uid-1''), (''created_at'', Num 1000),
                  (''status'', Str ''waiting'')])"
    and c1: "list_all (\<lambda>ev. \<not> users_keyspace_call ev) (new_events online_world ?w2)"
    by simp_all
  from quickMatch_admission [of quiet_world NoData caller1 "snd (?v quiet_world)" "''uid-1''"]
    g0 u q0
  have r0: "fst (quickMatchHandler NoData caller1 quiet_world) =
       Inl (HttpsError ''failed-precondition'' ''User Not Online'')"
    by simp
  have w2: "schedule ?w2 = []" "accounts ?w2 = accounts quiet_world"
    "field_value_available ?w2"
    by (simp_all add: quickMatchHandler_def quickMatchHandler_try_def top_level_catch_def
          context_auth_uid_def rtdb_once_def fs_get_def fs_set_def getServerTimestamp_def ev)
  have v2: "fst (?v ?w2) = Inr ()"
    using w2 by (simp add: validateAuthAndEmail_def auth_uid_def getUser_def next_step_def
                   emit_def Let_def caller1_def quiet_world_def)
  then have g2: "?v ?w2 = (Inr (), snd (?v ?w2))" by (simp add: prod_eq_iff)
  have q2: "schedule (snd (?v ?w2)) = []" "field_value_available (snd (?v ?w2))"
    "store (snd (?v ?w2)) = store ?w2"
    using w2 by (simp_all add: validateAuthAndEmail_def auth_uid_def getUser_def next_step_def
                   emit_def Let_def caller1_def quiet_world_def)
  from quickMatch_admission [of ?w2 NoData caller1 "snd (?v ?w2)" "''uid-1''"] g2 u q2 s1 q1(3)
  have r2: "fst (quickMatchHandler NoData caller1 ?w2) =
       Inl (HttpsError ''already-exists'' ''User Already Waiting to be matched'')"
    by simp
  note rv = ev racing_world_def rival_entry_step_def rtdb_once_def fs_get_def
  let ?P = "RtdbRef ''presence'' ''uid-1''"
  let ?Q = "FsDoc ''quick_matchmaking_queue'' ''uid-1''"
  let ?r1 = "snd (?v racing_world)"
  let ?r2 = "snd (rtdb_once ?P ?r1)"
  let ?r3 = "snd (fs_get ?Q ?r2)"
  let ?r4 = "snd (next_step ?r3)"
  have gr: "?v racing_world = (Inr (), ?r1)" by (simp add: prod_eq_iff rv)
  have fr: "field_value_available ?r1" by (simp add: rv)
  have o: "rtdb_once ?P ?r1 = (Inr True, ?r2)" by (simp add: prod_eq_iff rv)
  have g: "fs_get ?Q ?r2 = (Inr False, ?r3)" by (simp add: prod_eq_iff rv)
  have s: "next_step ?r3 = (None, ?r4)" by (simp add: prod_eq_iff rv)
  have k: "clock ?r4 = 1000"
    and rival: "store ?r4 ?Q =
       Some [(''uid'', Str ''uid-1''), (''created_at'', Num 990), (''status'', Str ''matched'')]"
    by (simp_all add: rv)
  from quickMatch_admission [of racing_world NoData caller1 ?r1 "''uid-1''" ?r2 ?r3 ?r4]
    gr u fr o g s
  have "quickMatchHandler NoData caller1 racing_world =
            (Inr \<lparr>resp_success = True, resp_username = None, resp_uid = None\<rparr>,
             emit (FsSet ?Q [(''uid'', Str ''uid-1''), (''created_at'', ServerTimestamp),
                      (''status'', Str ''waiting'')] (Inr ()))
               (?r4\<lparr>store := (store ?r4)(?Q \<mapsto>
                       [(''uid'', Str ''uid-1''), (''created_at'', Num (clock ?r4)),
                        (''status'', Str ''waiting'')])\<rparr>))"
    by simp
  then have r3: "fst (quickMatchHandler NoData caller1 racing_world) =
       Inr \<lparr>resp_success = True, resp_username = None, resp_uid = None\<rparr>"
    and s3: "store (snd (quickMatchHandler NoData caller1 racing_world)) ?Q =
       Some [(''uid'', Str ''uid-1''), (''created_at'', Num 1000), (''status'', Str ''waiting'')]"
    using k by (simp_all add: emit_def)
  have g': "fst (fs_get ?Q ?r2) = Inr False" by (simp add: rv)
  from v1 n r1 s1 r0 r2 c1 g' rival r3 s3 show ?thesis by simp
qed

section \<open>createNewUser on Firestore: the retry policy\<close>




section \<open>createNewUser on the Realtime Database: reserving the username\<close>

text \<open>
  C3. createUsername_loop is step 6 of createNewUser, which enters it with attempt 1 once
  its checks have passed. In every run the loop makes at most 3 attempts and at most 3
  transactions on the username key, and it never sleeps. Its first call is a
  transaction, and whatever precedes a later transaction is a read of the username key
  that found nothing: every retry re-reads the key first. A re-read that finds the key is
  the last call of the loop, which then throws already-exists, "username already taken".
  If no call of the run committed, found the key or was rejected with an HttpsError,
  the loop has made exactly 3 attempts and throws internal, "Something is wrong".
\<close>

theorem createUsername_retry_policy:
  assumes "createUsername_loop username 1 w = (r, w')"
  shows "rtdb_transactions (new_events w w') \<le> 3
       \<and> attempts_made (new_events w w') \<le> 3
       \<and> sleeps (new_events w w') = []
       \<and> new_events w w' \<noteq> []
       \<and> is_rtdb_transaction (hd (new_events w w'))
       \<and> retries_rechecked username (new_events w w')
       \<and> (RtdbOnce (RtdbRef ''usernames'' username) (Inr True) \<in> set (new_events w w') \<longrightarrow>
            r = Inl (HttpsError ''already-exists'' ''username already taken'')
            \<and> last (new_events w w') = RtdbOnce (RtdbRef ''usernames'' username) (Inr True))
       \<and> (list_all inconclusive (new_events w w') \<longrightarrow>
            r = Inl (HttpsError ''internal'' ''Something is wrong'')
            \<and> attempts_made (new_events w w') = 3)"
proof -
  from createUsername_loop_history [OF assms]
  obtain evs where t: "trace w' = trace w @ evs"
    and h: "createUsername_history username 1 evs r" by blast
  from t have ne: "new_events w w' = evs" by (rule new_events_append)
  have one: "0 < (1::nat)" and le: "1 \<le> maxRetries" by (simp_all add: maxRetries_def)
  from createUsername_history_nonempty [OF h le] have n: "evs \<noteq> []" .
  from createUsername_history_shape [OF h one] n
  have sh: "retries_rechecked username evs" "is_rtdb_transaction (hd evs)" "sleeps evs = []"
    "rtdb_transactions evs \<le> 3" "attempts_made evs \<le> 3"
    by (auto simp: maxRetries_def)
  have tk: "RtdbOnce (RtdbRef ''usernames'' username) (Inr True) \<in> set evs \<longrightarrow>
            r = Inl (HttpsError ''already-exists'' ''username already taken'')
            \<and> last evs = RtdbOnce (RtdbRef ''usernames'' username) (Inr True)"
    using createUsername_history_taken [OF h] by blast
  have ex: "list_all inconclusive evs \<longrightarrow>
            r = Inl (HttpsError ''internal'' ''Something is wrong'') \<and> attempts_made evs = 3"
    using createUsername_history_exhausted [OF h le] by (simp add: maxRetries_def)
  from sh n tk ex show ?thesis unfolding ne by (intro conjI)
qed

theorem createUsername_retry_policy_witness:
  "new_events (quiet_world\<lparr>schedule := [rival_step, ok_step]\<rparr>)
     (snd (createUsername_loop ''testuser123'' 1
        (quiet_world\<lparr>schedule := [rival_step, ok_step]\<rparr>))) =
     [RtdbTransaction (RtdbRef ''usernames'' ''testuser123'')
        (Inr \<lparr>committed = False, snapshot = Some [(''created_at'', Num 990)]\<rparr>),
      RtdbOnce (RtdbRef ''usernames'' ''testuser123'') (Inr True)]
   \<and> fst (createUsername_loop ''testuser123'' 1
        (quiet_world\<lparr>schedule := [rival_step, ok_step]\<rparr>)) =
     Inl (HttpsError ''already-exists'' ''username already taken'')
   \<and> new_events (quiet_world\<lparr>schedule := [failing otherError, ok_step, failing otherError,
                                            ok_step, failing otherError]\<rparr>)
     (snd (createUsername_loop ''testuser123'' 1
        (quiet_world\<lparr>schedule := [failing otherError, ok_step, failing otherError,
                                   ok_step, failing otherError]\<rparr>))) =
     [RtdbTransaction (RtdbRef ''usernames'' ''testuser123'') (Inl otherError),
      RtdbOnce (RtdbRef ''usernames'' ''testuser123'') (Inr False),
      RtdbTransaction (RtdbRef ''usernames'' ''testuser123'') (Inl otherError),
      RtdbOnce (RtdbRef ''usernames'' ''testuser123'') (Inr False),
      RtdbTransaction (RtdbRef ''usernames'' ''testuser123'') (Inl otherError)]
   \<and> fst (createUsername_loop ''testuser123'' 1
        (quiet_world\<lparr>schedule := [failing otherError, ok_step, failing otherError,
                                   ok_step, failing otherError]\<rparr>)) =
     Inl (HttpsError ''internal'' ''Something is wrong'')"
proof -
  let ?p = "RtdbRef ''usernames'' ''testuser123''"
  let ?w1 = "quiet_world\<lparr>schedule := [rival_step, ok_step]\<rparr>"
  let ?w2 = "quiet_world\<lparr>schedule := [failing otherError, ok_step, failing otherError,
                                        ok_step, failing otherError]\<rparr>"
  have e1: "new_events ?w1 (snd (createUsername_loop ''testuser123'' 1 ?w1)) =
     [RtdbTransaction ?p (Inr \<lparr>committed = False, snapshot = Some [(''created_at'', Num 990)]\<rparr>),
      RtdbOnce ?p (Inr True)]"
    by (simp add: handler_eval world_eval rival_step_def)
  have e2: "new_events ?w2 (snd (createUsername_loop ''testuser123'' 1 ?w2)) =
     [RtdbTransaction ?p (Inl otherError), RtdbOnce ?p (Inr False),
      RtdbTransaction ?p (Inl otherError), RtdbOnce ?p (Inr False),
      RtdbTransaction ?p (Inl otherError)]"
    by (simp add: handler_eval world_eval)
  have n: "\<not> instanceof_HttpsError otherError" by (simp add: otherError_def)
  have r1: "fst (createUsername_loop ''testuser123'' 1 ?w1) =
     Inl (HttpsError ''already-exists'' ''username already taken'')"
    using createUsername_retry_policy [of "''testuser123''" ?w1, OF prod.collapse [symmetric]]
    unfolding e1 by simp
  have r2: "fst (createUsername_loop ''testuser123'' 1 ?w2) =
     Inl (HttpsError ''internal'' ''Something is wrong'')"
    using createUsername_retry_policy [of "''testuser123''" ?w2, OF prod.collapse [symmetric]] n
    unfolding e2 by simp
  from e1 r1 e2 r2 show ?thesis by simp
qed

section \<open>The rollback of the username reservation\<close>

text \<open>
  C1 (amended). When the history of a call of createNewUser on the Realtime Database
  shows three transactions on a user record that did not commit, the call throws
  internal, "Something is Wrong"; the record of the trimmed username had been written
  by a committed transaction earlier in that call; and the last call it made is the
  removal of that record, whatever the removal answered. If the removal succeeded, the
  record of the username is absent from the store the call ends with, and a following
  call with the same data by any caller with a verified account and no user record, in
  an environment that neither interferes nor rejects a call, resolves with that
  username. A rejected removal does not promise that the record is gone; whenever the
  record of the username is present in the store the call ends with, such a following
  call throws already-exists, "username already taken".
\<close>

theorem identity_phase_rollback:
  assumes "createNewUser data context w = (r, w')"
    and "failed_user_transactions (new_events w w') = 3"
  shows "r = Inl (HttpsError ''internal'' ''Something is Wrong'')
       \<and> (\<exists>raw cleanup d.
            data = Data (JString raw)
            \<and> (RtdbRef ''usernames'' (trim raw), d) \<in> set (transaction_writes (new_events w w'))
            \<and> last (new_events w w') = RtdbRemove (RtdbRef ''usernames'' (trim raw)) cleanup
            \<and> (cleanup = Inr () \<longrightarrow>
                 store w' (RtdbRef ''usernames'' (trim raw)) = None
                 \<and> (auth_uid context' = Some uid' \<and> accounts w' uid' = Some userRecord'
                      \<and> emailVerified userRecord' \<and> schedule w' = []
                      \<and> store w' (RtdbRef ''users'' uid') = None \<longrightarrow>
                      fst (createNewUser data context' w') =
                        Inr \<lparr>resp_success = True, resp_username = Some (trim raw),
                             resp_uid = Some uid'\<rparr>))
            \<and> (store w' (RtdbRef ''usernames'' (trim raw)) \<noteq> None
                 \<and> auth_uid context' = Some uid' \<and> accounts w' uid' = Some userRecord'
                 \<and> emailVerified userRecord' \<and> schedule w' = []
                 \<and> store w' (RtdbRef ''users'' uid') = None \<longrightarrow>
                 fst (createNewUser data context' w') =
                   Inl (HttpsError ''already-exists'' ''username already taken'')))"
proof -
  from createNewUser_history [OF assms(1)]
  consider (loops) uid userRecord raw t evs1 evs2 r2 where
      "username_string data = Some raw" "regex_match usernameRegex (trim raw)"
      "trace w' = trace w @
                 [AuthGetUser uid (Inr userRecord),
                  RtdbOnce (RtdbRef ''users'' uid) (Inr False),
                  RtdbOnce (RtdbRef ''usernames'' (trim raw)) (Inr False)] @ evs1 @ evs2"
      "createUsername_history (trim raw) 1 evs1 (Inr (Some (Num t)))"
      "createUser_history uid (trim raw)
                 [(''created_at'', Num t), (''username'', Str (trim raw)),
                  (''email_address'', Str (email userRecord))] 1 evs2 r2"
      "evs2 \<noteq> []" "settled (last evs2) w'"
      "r = (case r2 of Inl e \<Rightarrow> Inl e
            | Inr b \<Rightarrow> Inr \<lparr>resp_success = True, resp_username = Some (trim raw),
                             resp_uid = Some uid\<rparr>)"
    | (early) evs where "trace w' = trace w @ evs" "\<forall>ev \<in> set evs. \<not> is_user_transaction ev"
    by blast
  then show ?thesis
  proof cases
    case early
    from early(1) have "new_events w w' = evs" by (rule new_events_append)
    with no_user_transaction_failed [OF early(2)] assms(2) show ?thesis by simp
  next
    case loops
    let ?u = "trim raw"
    let ?pre = "[AuthGetUser uid (Inr userRecord),
                  RtdbOnce (RtdbRef ''users'' uid) (Inr False),
                  RtdbOnce (RtdbRef ''usernames'' ?u) (Inr False)]"
    from loops(3) have ne: "new_events w w' = ?pre @ evs1 @ evs2" by (rule new_events_append)
    from loops(1) have d: "data = Data (JString raw)" by (auto elim: username_string.elims)
    have c1: "failed_user_transactions evs1 = 0"
      using createUsername_history_no_user [OF loops(4)] by (rule no_user_transaction_failed)
    from assms(2) c1 have c2: "failed_user_transactions evs2 = 3" unfolding ne by simp
    have le: "1 \<le> maxRetries" by (simp add: maxRetries_def)
    from createUser_history_count [OF loops(5) le] c2
    obtain cleanup where r2: "r2 = Inl (HttpsError ''internal'' ''Something is Wrong'')"
      and l: "last evs2 = RtdbRemove (RtdbRef ''usernames'' ?u) cleanup"
      by (cases r2) (auto simp: maxRetries_def)
    from createUsername_history_writes [OF loops(4)]
    obtain d1 where w1: "transaction_writes evs1 = [(RtdbRef ''usernames'' ?u, d1)]" by blast
    have a: "r = Inl (HttpsError ''internal'' ''Something is Wrong'')"
      using loops(8) r2 by simp
    have b: "(RtdbRef ''usernames'' ?u, d1) \<in> set (transaction_writes (new_events w w'))"
      unfolding ne using w1 by simp
    have c: "last (new_events w w') = RtdbRemove (RtdbRef ''usernames'' ?u) cleanup"
      unfolding ne using l loops(6) by simp
    have s: "store w' (RtdbRef ''usernames'' ?u) = None" if "cleanup = Inr ()"
      using loops(7) l that by simp
    have n: "fst (createNewUser data context' w') =
                        Inr \<lparr>resp_success = True, resp_username = Some ?u,
                             resp_uid = Some uid'\<rparr>"
      if "cleanup = Inr ()" "auth_uid context' = Some uid'" "accounts w' uid' = Some userRecord'"
        "emailVerified userRecord'" "schedule w' = []" "store w' (RtdbRef ''users'' uid') = None"
      using createNewUser_quiet_success [OF that(2,3,4) d loops(2) that(5,6) s [OF that(1)]] .
    have k: "fst (createNewUser data context' w') =
               Inl (HttpsError ''already-exists'' ''username already taken'')"
      if "store w' (RtdbRef ''usernames'' ?u) \<noteq> None" "auth_uid context' = Some uid'"
        "accounts w' uid' = Some userRecord'" "emailVerified userRecord'" "schedule w' = []"
        "store w' (RtdbRef ''users'' uid') = None"
      using createNewUser_quiet_taken [OF that(2,3,4) d loops(2) that(5,6,1)] .
    from a b c s n k d show ?thesis
      by - (rule conjI, assumption, rule exI [of _ raw], rule exI [of _ cleanup],
            rule exI [of _ d1], simp)
  qed
qed

text \<open>
  The user transaction is rejected three times and the removal of the username record is
  rejected too: the call throws internal, "Something is Wrong", the record stays, and the
  following call by another caller with the same username is refused as already taken.
\<close>

theorem identity_phase_rollback_counterexample:
  "fst (createNewUser (Data (JString ''testuser123'')) caller1
          (quiet_world\<lparr>schedule := [ok_step, ok_step, ok_step, ok_step, failing otherError,
                                     failing otherError, failing otherError,
                                     failing otherError]\<rparr>)) =
     Inl (HttpsError ''internal'' ''Something is Wrong'')
   \<and> failed_user_transactions
        (new_events (quiet_world\<lparr>schedule := [ok_step, ok_step, ok_step, ok_step,
                                                failing otherError, failing otherError,
                                                failing otherError, failing otherError]\<rparr>)
           (snd (createNewUser (Data (JString ''testuser123'')) caller1
              (quiet_world\<lparr>schedule := [ok_step, ok_step, ok_step, ok_step,
                                         failing otherError, failing otherError,
                                         failing otherError, failing otherError]\<rparr>)))) = 3
   \<and> last (new_events (quiet_world\<lparr>schedule := [ok_step, ok_step, ok_step, ok_step,
                                                failing otherError, failing otherError,
                                                failing otherError, failing otherError]\<rparr>)
           (snd (createNewUser (Data (JString ''testuser123'')) caller1
              (quiet_world\<lparr>schedule := [ok_step, ok_step, ok_step, ok_step,
                                         failing otherError, failing otherError,
                                         failing otherError, failing otherError]\<rparr>)))) =
     RtdbRemove (RtdbRef ''usernames'' ''testuser123'') (Inl otherError)
   \<and> fst (createNewUser (Data (JString ''testuser123'')) caller2
        (snd (createNewUser (Data (JString ''testuser123'')) caller1
           (quiet_world\<lparr>schedule := [ok_step, ok_step, ok_step, ok_step, failing otherError,
                                      failing otherError, failing otherError,
                                      failing otherError]\<rparr>)))) =
     Inl (HttpsError ''already-exists'' ''username already taken'')"
  by (simp add: handler_eval world_eval)

text \<open>
  The same run with a removal that succeeds: the record is gone and the following call by
  another caller resolves with the username. And a run whose removal is rejected with a
  contended error: the record is still there, and the following call is refused.
\<close>

theorem identity_phase_rollback_witness:
  "fst (createNewUser (Data (JString ''testuser123'')) caller1
          (quiet_world\<lparr>schedule := [ok_step, ok_step, ok_step, ok_step, failing otherError,
                                     failing otherError, failing otherError]\<rparr>)) =
     Inl (HttpsError ''internal'' ''Something is Wrong'')
   \<and> failed_user_transactions
        (new_events (quiet_world\<lparr>schedule := [ok_step, ok_step, ok_step, ok_step,
                                                failing otherError, failing otherError,
                                                failing otherError]\<rparr>)
           (snd (createNewUser (Data (JString ''testuser123'')) caller1
              (quiet_world\<lparr>schedule := [ok_step, ok_step, ok_step, ok_step,
                                         failing otherError, failing otherError,
                                         failing otherError]\<rparr>)))) = 3
   \<and> last (new_events (quiet_world\<lparr>schedule := [ok_step, ok_step, ok_step, ok_step,
                                                failing otherError, failing otherError,
                                                failing otherError]\<rparr>)
           (snd (createNewUser (Data (JString ''testuser123'')) caller1
              (quiet_world\<lparr>schedule := [ok_step, ok_step, ok_step, ok_step,
                                         failing otherError, failing otherError,
                                         failing otherError]\<rparr>)))) =
     RtdbRemove (RtdbRef ''usernames'' ''testuser123'') (Inr ())
   \<and> store (snd (createNewUser (Data (JString ''testuser123'')) caller1
              (quiet_world\<lparr>schedule := [ok_step, ok_step, ok_step, ok_step,
                                         failing otherError, failing otherError,
                                         failing otherError]\<rparr>)))
        (RtdbRef ''usernames'' ''testuser123'') = None
   \<and> fst (createNewUser (Data (JString ''testuser123'')) caller2
        (snd (createNewUser (Data (JString ''testuser123'')) caller1
           (quiet_world\<lparr>schedule := [ok_step, ok_step, ok_step, ok_step, failing otherError,
                                      failing otherError, failing otherError]\<rparr>)))) =
     Inr \<lparr>resp_success = True, resp_username = Some ''testuser123'', resp_uid = Some ''uid-2''\<rparr>
   \<and> failed_user_transactions
        (new_events (quiet_world\<lparr>schedule := [ok_step, ok_step, ok_step, ok_step,
                                                failing otherError, failing otherError,
                                                failing otherError, failing lockedError]\<rparr>)
           (snd (createNewUser (Data (JString ''testuser123'')) caller1
              (quiet_world\<lparr>schedule := [ok_step, ok_step, ok_step, ok_step,
                                         failing otherError, failing otherError,
                                         failing otherError, failing lockedError]\<rparr>)))) = 3
   \<and> store (snd (createNewUser (Data (JString ''testuser123'')) caller1
              (quiet_world\<lparr>schedule := [ok_step, ok_step, ok_step, ok_step,
                                         failing otherError, failing otherError,
                                         failing otherError, failing lockedError]\<rparr>)))
        (RtdbRef ''usernames'' ''testuser123'') = Some [(''created_at'', Num 1000)]
   \<and> fst (createNewUser (Data (JString ''testuser123'')) caller2
        (snd (createNewUser (Data (JString ''testuser123'')) caller1
           (quiet_world\<lparr>schedule := [ok_step, ok_step, ok_step, ok_step, failing otherError,
                                      failing otherError, failing otherError,
                                      failing lockedError]\<rparr>)))) =
     Inl (HttpsError ''already-exists'' ''username already taken'')"
proof -
  let ?d = "Data (JString ''testuser123'')"
  let ?w = "quiet_world\<lparr>schedule := [ok_step, ok_step, ok_step, ok_step, failing otherError,
                                      failing otherError, failing otherError]\<rparr>"
  let ?v = "quiet_world\<lparr>schedule := [ok_step, ok_step, ok_step, ok_step, failing otherError,
                                      failing otherError, failing otherError,
                                      failing lockedError]\<rparr>"
  let ?run = "createNewUser ?d caller1 ?w"
  let ?kept = "createNewUser ?d caller1 ?v"
  let ?acc = "\<lparr>email = ''two@example.com'', emailVerified = True\<rparr>"
  have c: "failed_user_transactions (new_events ?w (snd ?run)) = 3"
    by (simp add: handler_eval world_eval)
  have l: "last (new_events ?w (snd ?run)) =
             RtdbRemove (RtdbRef ''usernames'' ''testuser123'') (Inr ())"
    by (simp add: handler_eval world_eval)
  have t: "trim ''testuser123'' = ''testuser123''"
    by (simp add: trim_def is_js_whitespace_def)
  have u: "auth_uid caller2 = Some ''uid-2''"
    by (simp add: auth_uid_def caller2_def)
  have a: "accounts (snd ?run) ''uid-2'' = Some ?acc" "emailVerified ?acc"
    by (simp_all add: handler_eval world_eval)
  have q: "schedule (snd ?run) = []"
    by (simp add: handler_eval world_eval)
  have n: "store (snd ?run) (RtdbRef ''users'' ''uid-2'') = None"
    by (simp add: handler_eval world_eval)
  from identity_phase_rollback [of ?d caller1 ?w "fst ?run" "snd ?run" caller2 "''uid-2''" ?acc,
        OF prod.collapse [symmetric] c]
  have first: "fst ?run = Inl (HttpsError ''internal'' ''Something is Wrong'')
      \<and> store (snd ?run) (RtdbRef ''usernames'' ''testuser123'') = None
      \<and> fst (createNewUser ?d caller2 (snd ?run)) =
          Inr \<lparr>resp_success = True, resp_username = Some ''testuser123'',
               resp_uid = Some ''uid-2''\<rparr>"
    unfolding l using t u a q n by auto
  have c': "failed_user_transactions (new_events ?v (snd ?kept)) = 3"
    by (simp add: handler_eval world_eval)
  have k: "store (snd ?kept) (RtdbRef ''usernames'' ''testuser123'') =
             Some [(''created_at'', Num 1000)]"
    by (simp add: handler_eval world_eval)
  have a': "accounts (snd ?kept) ''uid-2'' = Some ?acc"
    by (simp add: handler_eval world_eval)
  have q': "schedule (snd ?kept) = []"
    by (simp add: handler_eval world_eval)
  have n': "store (snd ?kept) (RtdbRef ''users'' ''uid-2'') = None"
    by (simp add: handler_eval world_eval)
  from identity_phase_rollback [of ?d caller1 ?v "fst ?kept" "snd ?kept" caller2 "''uid-2''" ?acc,
        OF prod.collapse [symmetric] c']
  have second: "fst (createNewUser ?d caller2 (snd ?kept)) =
          Inl (HttpsError ''already-exists'' ''username already taken'')"
    using t u a' a(2) q' n' k by auto
  from first c l c' k second show ?thesis by simp
qed

end
